theory Spec2Isabelle
  imports Complex_Main "HOL-Library.Sublist" "HOL-Library.Char_ord" "HOL-Library.List_Lexorder"
begin

section \<open>The JavaScript runtime, as far as page.tsx uses it\<close>

text \<open>
  Strings are \<^typ>\<open>string\<close>: a list of code units, of which the model covers those below 256.
  Numbers are idealised: an amount is a \<^typ>\<open>real\<close>, and the one non-real value the code
  tests for, NaN, is \<open>None\<close> where \<open>parseFloat\<close> returns it. Infinite values and rounding
  to a double are outside the model. A value that may be \<open>undefined\<close> is an \<open>option\<close>.
  An exception the code does not catch is a value of \<open>error\<close>.
\<close>

datatype error = TypeError | RangeError

subsection \<open>Strings\<close>

text \<open>
  \<open>str.split(sep)\<close> for a separator of one code unit. The result is never empty, so the
  first case of the recursion does not arise.
\<close>

fun split :: "char \<Rightarrow> string \<Rightarrow> string list" where
  "split sep [] = [[]]"
| "split sep (c # cs) =
     (case split sep cs of
        [] \<Rightarrow> [[c]]
      | p # ps \<Rightarrow> (if c = sep then [] # p # ps else (c # p) # ps))"

text \<open>Reading an array position that may not exist: \<open>undefined\<close> beyond the end.\<close>

definition at_index :: "'a list \<Rightarrow> nat \<Rightarrow> 'a option" where
  "at_index xs i = (if i < length xs then Some (xs ! i) else None)"

text \<open>\<open>str.padStart(n, c)\<close> for a filler of one code unit.\<close>

definition padStart :: "nat \<Rightarrow> char \<Rightarrow> string \<Rightarrow> string" where
  "padStart n c s = replicate (n - length s) c @ s"

text \<open>\<open>str.endsWith(s)\<close>.\<close>

definition endsWith :: "string \<Rightarrow> string \<Rightarrow> bool" where
  "endsWith str s = (length s \<le> length str \<and> drop (length str - length s) str = s)"

text \<open>\<open>str.substring(0, n)\<close>.\<close>

definition substring0 :: "nat \<Rightarrow> string \<Rightarrow> string" where
  "substring0 n s = take n s"

text \<open>A value inside a template literal: \<open>undefined\<close> prints as the word.\<close>

definition template :: "string option \<Rightarrow> string" where
  "template v = (case v of None \<Rightarrow> ''undefined'' | Some s \<Rightarrow> s)"

text \<open>\<open>v || d\<close> on a string that may be undefined: undefined and the empty string are falsy.\<close>

definition or_else :: "string option \<Rightarrow> string \<Rightarrow> string" where
  "or_else v d = (case v of None \<Rightarrow> d | Some s \<Rightarrow> (if s = [] then d else s))"

subsection \<open>Numbers\<close>

definition isDigit :: "char \<Rightarrow> bool" where
  "isDigit c = (CHR ''0'' \<le> c \<and> c \<le> CHR ''9'')"

definition digitValue :: "char \<Rightarrow> nat" where
  "digitValue c = of_char c - of_char CHR ''0''"

definition digitsValue :: "string \<Rightarrow> nat" where
  "digitsValue ds = foldl (\<lambda>n c. 10 * n + digitValue c) 0 ds"

definition isStrWhiteSpace :: "char \<Rightarrow> bool" where
  "isStrWhiteSpace c = (c \<in> set [CHR '' '', CHR 0x09, CHR 0x0A, CHR 0x0B, CHR 0x0C, CHR 0x0D, CHR 0xA0])"

text \<open>The sign of a numeric literal: the flag says negative, the string is what follows.\<close>

fun signPrefix :: "string \<Rightarrow> bool \<times> string" where
  "signPrefix [] = (False, [])"
| "signPrefix (c # cs) =
     (if c = CHR ''-'' then (True, cs) else if c = CHR ''+'' then (False, cs) else (False, c # cs))"

text \<open>The exponent part of a decimal literal: \<open>e\<close> or \<open>E\<close>, a sign, at least one digit; 0 without one.\<close>

fun exponentPart :: "string \<Rightarrow> int" where
  "exponentPart [] = 0"
| "exponentPart (c # cs) =
     (if c = CHR ''e'' \<or> c = CHR ''E'' then
        (let (neg, r) = signPrefix cs; ds = takeWhile isDigit r
         in if ds = [] then 0 else if neg then - int (digitsValue ds) else int (digitsValue ds))
      else 0)"

definition pow10 :: "int \<Rightarrow> real" where
  "pow10 e = (if 0 \<le> e then 10 ^ nat e else 1 / 10 ^ nat (- e))"

text \<open>
  \<open>parseFloat(s)\<close>: leading white space is skipped, then the longest prefix that is a decimal
  literal is read; \<open>None\<close> is NaN. JavaScript reads the literal \<open>Infinity\<close> as an infinite
  number, which the reals do not have: strings that begin with it, after white space and a
  sign, are outside what the model covers.
\<close>

definition parseFloat :: "string \<Rightarrow> real option" where
  "parseFloat s =
     (let (neg, s2) = signPrefix (dropWhile isStrWhiteSpace s);
          ip = takeWhile isDigit s2;
          s3 = dropWhile isDigit s2;
          fp = (case s3 of [] \<Rightarrow> [] | c # r \<Rightarrow> if c = CHR ''.'' then takeWhile isDigit r else []);
          s4 = (case s3 of [] \<Rightarrow> [] | c # r \<Rightarrow> if c = CHR ''.'' then dropWhile isDigit r else s3);
          m = real (digitsValue ip) + real (digitsValue fp) / 10 ^ length fp
      in if ip = [] \<and> fp = [] then None
         else Some ((if neg then - m else m) * pow10 (exponentPart s4)))"

subsection \<open>Arrays\<close>

text \<open>\<open>arr.findIndex(p)\<close>: the first position whose element satisfies \<open>p\<close>, or \<open>-1\<close>.\<close>

fun findIndex :: "('a \<Rightarrow> bool) \<Rightarrow> 'a list \<Rightarrow> int" where
  "findIndex p [] = - 1"
| "findIndex p (x # xs) =
     (if p x then 0 else (let i = findIndex p xs in if i = - 1 then - 1 else i + 1))"

text \<open>\<open>arr.filter((element, index, self) => ...)\<close>.\<close>

definition filterIndexed :: "('a \<Rightarrow> int \<Rightarrow> 'a list \<Rightarrow> bool) \<Rightarrow> 'a list \<Rightarrow> 'a list" where
  "filterIndexed p self =
     map snd (filter (\<lambda>(index, element). p element (int index) self) (enumerate 0 self))"

text \<open>
  \<open>arr.sort(compare)\<close>: the sort is stable, and for a consistent comparison function the
  stable sorted arrangement is unique, so insertion from the right computes it.
\<close>

fun insertSorted :: "('a \<Rightarrow> 'a \<Rightarrow> int) \<Rightarrow> 'a \<Rightarrow> 'a list \<Rightarrow> 'a list" where
  "insertSorted compare x [] = [x]"
| "insertSorted compare x (y # ys) =
     (if compare x y \<le> 0 then x # y # ys else y # insertSorted compare x ys)"

definition sortBy :: "('a \<Rightarrow> 'a \<Rightarrow> int) \<Rightarrow> 'a list \<Rightarrow> 'a list" where
  "sortBy compare xs = foldr (insertSorted compare) xs []"

text \<open>
  What the language asks of a comparison function, read as \<open>a\<close> before or level with \<open>b\<close>
  when \<open>compare a b \<le> 0\<close>: any two values are comparable, and the order is transitive.
\<close>

definition consistent :: "('a \<Rightarrow> 'a \<Rightarrow> int) \<Rightarrow> bool" where
  "consistent compare =
     ((\<forall>a b. compare a b \<le> 0 \<or> compare b a \<le> 0) \<and>
      (\<forall>a b c. compare a b \<le> 0 \<longrightarrow> compare b c \<le> 0 \<longrightarrow> compare a c \<le> 0))"

text \<open>
  \<open>a.localeCompare(b)\<close> is the collation of the runtime's locale and a parameter of the model.
  Comparison by code units is one consistent comparison; digits and the hyphen are ordered
  alike by the collations in use, so on dates in ISO form they agree with it.
\<close>

definition codeUnitCompare :: "string \<Rightarrow> string \<Rightarrow> int" where
  "codeUnitCompare a b = (if a < b then - 1 else if a = b then 0 else 1)"

text \<open>\<open>Array.from(new Set(xs))\<close>: the distinct values, in the order of their first insertion.\<close>

definition fromSet :: "'a list \<Rightarrow> 'a list" where
  "fromSet xs = foldl (\<lambda>acc x. if x \<in> set acc then acc else acc @ [x]) [] xs"

text \<open>An integer as \<open>String(n)\<close> and a template literal print it.\<close>

definition digitChar :: "nat \<Rightarrow> char" where
  "digitChar n = char_of (of_char CHR ''0'' + n)"

fun natToString :: "nat \<Rightarrow> string" where
  "natToString n = (if n < 10 then [digitChar n] else natToString (n div 10) @ [digitChar (n mod 10)])"

declare natToString.simps [simp del]

definition intToString :: "int \<Rightarrow> string" where
  "intToString i = (if i < 0 then ''-'' @ natToString (nat (- i)) else natToString (nat i))"

text \<open>
  \<open>x.toFixed(f)\<close> for \<open>x \<ge> 0\<close> below \<open>10^21\<close>: the nearest multiple of \<open>10^-f\<close>, the larger
  of two that are equally near, with \<open>f\<close> digits after the point.
\<close>

definition toFixed :: "nat \<Rightarrow> real \<Rightarrow> string" where
  "toFixed f x =
     (let n = nat \<lfloor>x * 10 ^ f + 1 / 2\<rfloor>;
          m = padStart (f + 1) CHR ''0'' (natToString n);
          k = length m - f
      in if f = 0 then m else take k m @ ''.'' @ drop k m)"

text \<open>
  The integer operations of the hash: \<open>ToInt32\<close> wraps to 32 bits, two's complement;
  \<open>a << k\<close> shifts the wrapped value and wraps again; \<open>a % b\<close> takes the sign of \<open>a\<close>.
  The hash itself is a double; its sums and differences are of integers far below \<open>2^53\<close>
  for any category of less than a million characters, and so exact.
\<close>

definition toInt32 :: "int \<Rightarrow> int" where
  "toInt32 n = (n + 2 ^ 31) mod 2 ^ 32 - 2 ^ 31"

definition shiftLeft :: "int \<Rightarrow> nat \<Rightarrow> int" where
  "shiftLeft a k = toInt32 (toInt32 a * 2 ^ (k mod 32))"

definition remainder :: "int \<Rightarrow> int \<Rightarrow> int" where
  "remainder a b = sgn a * (\<bar>a\<bar> mod \<bar>b\<bar>)"

definition charCodeAt :: "string \<Rightarrow> nat \<Rightarrow> int" where
  "charCodeAt s i = int (of_char (s ! i))"

text \<open>
  A value read from an object by a key: a string of the object's own, a function or object
  it inherits from \<open>Object.prototype\<close> (named by its key), or \<open>undefined\<close>.
\<close>

datatype jsvalue = Undefined | Str string | Inherited string

definition objectPrototype :: "string list" where
  "objectPrototype =
     [''constructor'', ''hasOwnProperty'', ''isPrototypeOf'', ''propertyIsEnumerable'',
      ''toLocaleString'', ''toString'', ''valueOf'', ''__proto__'', ''__defineGetter__'',
      ''__defineSetter__'', ''__lookupGetter__'', ''__lookupSetter__'']"

definition getProperty :: "(string \<times> string) list \<Rightarrow> string \<Rightarrow> jsvalue" where
  "getProperty obj key =
     (case map_of obj key of
        Some s \<Rightarrow> Str s
      | None \<Rightarrow> if key \<in> set objectPrototype then Inherited key else Undefined)"

fun truthy :: "jsvalue \<Rightarrow> bool" where
  "truthy Undefined = False"
| "truthy (Str s) = (s \<noteq> [])"
| "truthy (Inherited k) = True"

text \<open>\<open>x || 0\<close> on a number that may be undefined: undefined and 0 are falsy.\<close>

definition orZero :: "real option \<Rightarrow> real" where
  "orZero v = (case v of None \<Rightarrow> 0 | Some x \<Rightarrow> (if x = 0 then 0 else x))"

subsection \<open>Dates\<close>

text \<open>
  A time value is a count of milliseconds from 1970-01-01T00:00Z. The local time zone is a
  parameter, \<open>utcOffset\<close>: the minutes local time is ahead of UTC, taken as fixed.
  The two functions below are the calendar of the runtime: the day number of a civil date
  and back, months from 1; a day of the month beyond the month's length runs into the next.
\<close>

definition msPerDay :: int where
  "msPerDay = 86400000"

definition daysFromCivil :: "int \<Rightarrow> int \<Rightarrow> int \<Rightarrow> int" where
  "daysFromCivil y m d =
     (let y' = (if m \<le> 2 then y - 1 else y);
          era = y' div 400;
          yoe = y' - era * 400;
          doy = (153 * (if m > 2 then m - 3 else m + 9) + 2) div 5 + d - 1;
          doe = yoe * 365 + yoe div 4 - yoe div 100 + doy
      in era * 146097 + doe - 719468)"

definition civilFromDays :: "int \<Rightarrow> int \<times> int \<times> int" where
  "civilFromDays z =
     (let z' = z + 719468;
          era = z' div 146097;
          doe = z' - era * 146097;
          yoe = (doe - doe div 1460 + doe div 36524 - doe div 146096) div 365;
          doy = doe - (365 * yoe + yoe div 4 - yoe div 100);
          mp = (5 * doy + 2) div 153;
          d = doy - (153 * mp + 2) div 5 + 1;
          m = (if mp < 10 then mp + 3 else mp - 9);
          y = yoe + era * 400
      in (if m \<le> 2 then y + 1 else y, m, d))"

text \<open>
  \<open>new Date(s)\<close> for a string in the date-only form \<open>YYYY-MM-DD\<close>, which is read as midnight
  UTC; the day may be up to 31 in any month, as V8 reads it. \<open>None\<close> is an Invalid Date,
  which is also what the model gives every other string (the language leaves those to the
  implementation).
\<close>

definition dateParse :: "string \<Rightarrow> int option" where
  "dateParse s =
     (if length s = 10 \<and> s ! 4 = CHR ''-'' \<and> s ! 7 = CHR ''-'' \<and>
         list_all isDigit (take 4 s @ take 2 (drop 5 s) @ drop 8 s)
      then (let y = int (digitsValue (take 4 s));
                m = int (digitsValue (take 2 (drop 5 s)));
                d = int (digitsValue (drop 8 s))
            in if 1 \<le> m \<and> m \<le> 12 \<and> 1 \<le> d \<and> d \<le> 31
               then Some (daysFromCivil y m d * msPerDay) else None)
      else None)"

definition localTime :: "int \<Rightarrow> int \<Rightarrow> int" where
  "localTime utcOffset t = t + utcOffset * 60000"

text \<open>\<open>date.getDay()\<close>: the day of the week in local time, Sunday 0.\<close>

definition getDay :: "int \<Rightarrow> int \<Rightarrow> int" where
  "getDay utcOffset t = (localTime utcOffset t div msPerDay + 4) mod 7"

text \<open>\<open>date.getDate()\<close>: the day of the month in local time.\<close>

definition getDate :: "int \<Rightarrow> int \<Rightarrow> int" where
  "getDate utcOffset t = (case civilFromDays (localTime utcOffset t div msPerDay) of (y, m, d) \<Rightarrow> d)"

text \<open>
  \<open>date.setDate(dt)\<close>: the day \<open>dt\<close> of the local month, counted on from its first day, at
  the same local time of day; the result is the new time value.
\<close>

definition setDate :: "int \<Rightarrow> int \<Rightarrow> int \<Rightarrow> int" where
  "setDate utcOffset t dt =
     (let l = localTime utcOffset t
      in case civilFromDays (l div msPerDay) of (y, m, d) \<Rightarrow>
           (daysFromCivil y m 1 + dt - 1) * msPerDay + l mod msPerDay - utcOffset * 60000)"

text \<open>\<open>date.toISOString()\<close>, in UTC, for the years 0 to 9999.\<close>

definition pad :: "nat \<Rightarrow> int \<Rightarrow> string" where
  "pad n i = padStart n CHR ''0'' (natToString (nat i))"

definition toISOString :: "int \<Rightarrow> string" where
  "toISOString t =
     (let ms = t mod msPerDay
      in case civilFromDays (t div msPerDay) of (y, m, d) \<Rightarrow>
           pad 4 y @ ''-'' @ pad 2 m @ ''-'' @ pad 2 d @ ''T'' @ pad 2 (ms div 3600000) @ '':''
             @ pad 2 (ms div 60000 mod 60) @ '':'' @ pad 2 (ms div 1000 mod 60) @ ''.''
             @ pad 3 (ms mod 1000) @ ''Z'')"

section \<open>Transactions\<close>

text \<open>
  The interface \<open>Transaction\<close>: the date is meant to be in the form \<open>YYYY-MM-DD\<close>, the
  amount is positive for spending and negative for credits.
\<close>

record transaction =
  date :: string
  amount :: real
  description :: string
  category :: string

datatype ViewMode = Cumulative | Daily | Weekly

text \<open>A parsed CSV row: the cell under each header name.\<close>

type_synonym row = "string \<rightharpoonup> string"

section \<open>Ingestion\<close>

text \<open>
  The body of the \<open>forEach\<close> over \<open>results.data\<close>: \<open>Inr None\<close> is a row that is skipped,
  \<open>Inr (Some t)\<close> a row that is pushed, \<open>Inl e\<close> an exception.
\<close>

definition normalizeRow :: "row \<Rightarrow> error + transaction option" where
  "normalizeRow row =
     (let dateStr = row ''Transaction Date'';
          amountStr = row ''Amount'';
          description = or_else (row ''Description'') ''Unknown'';
          category = or_else (row ''Category'') ''Uncategorized''
      in case dateStr of None \<Rightarrow> Inr None | Some dateStr \<Rightarrow>
         case amountStr of None \<Rightarrow> Inr None | Some amountStr \<Rightarrow>
         if dateStr \<noteq> [] \<and> amountStr \<noteq> [] then
           (let parts = split CHR ''/'' dateStr;
                month = at_index parts 0;
                day = at_index parts 1;
                year = at_index parts 2
            in case month of None \<Rightarrow> Inl TypeError | Some month \<Rightarrow>
               case day of None \<Rightarrow> Inl TypeError | Some day \<Rightarrow>
               (let date = template year @ ''-'' @ padStart 2 CHR ''0'' month
                             @ ''-'' @ padStart 2 CHR ''0'' day
                in case parseFloat amountStr of
                     None \<Rightarrow> Inr None
                   | Some a \<Rightarrow> Inr (Some \<lparr>date = date, amount = - a,
                                          description = description, category = category\<rparr>)))
         else Inr None)"

text \<open>The \<open>forEach\<close> itself: rows in order, stopping at the first exception.\<close>

fun newTransactions :: "row list \<Rightarrow> error + transaction list" where
  "newTransactions [] = Inr []"
| "newTransactions (row # rows) =
     (case normalizeRow row of
        Inl e \<Rightarrow> Inl e
      | Inr r \<Rightarrow>
          (case newTransactions rows of
             Inl e \<Rightarrow> Inl e
           | Inr ts \<Rightarrow> Inr ((case r of None \<Rightarrow> [] | Some t \<Rightarrow> [t]) @ ts)))"

text \<open>The updater passed to \<open>setTransactions\<close>: merge, remove duplicates, sort by date.\<close>

definition sameKey :: "transaction \<Rightarrow> transaction \<Rightarrow> bool" where
  "sameKey t transaction =
     (date t = date transaction \<and> amount t = amount transaction \<and>
      description t = description transaction \<and> category t = category transaction)"

definition unique :: "transaction list \<Rightarrow> transaction list" where
  "unique combined =
     filterIndexed (\<lambda>transaction index self. index = findIndex (\<lambda>t. sameKey t transaction) self)
       combined"

definition mergeTransactions ::
  "(string \<Rightarrow> string \<Rightarrow> int) \<Rightarrow> transaction list \<Rightarrow> transaction list \<Rightarrow> transaction list" where
  "mergeTransactions localeCompare prev new =
     sortBy (\<lambda>a b. localeCompare (date a) (date b)) (unique (prev @ new))"

text \<open>
  The \<open>complete\<close> callback of \<open>parseCSV\<close> on the rows of one file, from the store \<open>prev\<close>:
  the new store, or the exception that left the store as it was.
\<close>

definition parseCSV ::
  "(string \<Rightarrow> string \<Rightarrow> int) \<Rightarrow> row list \<Rightarrow> transaction list \<Rightarrow> error + transaction list" where
  "parseCSV localeCompare rows prev =
     (case newTransactions rows of
        Inl e \<Rightarrow> Inl e
      | Inr new \<Rightarrow> Inr (mergeTransactions localeCompare prev new))"

text \<open>The store after the callback has run: unchanged when it threw.\<close>

definition ingest ::
  "(string \<Rightarrow> string \<Rightarrow> int) \<Rightarrow> row list \<Rightarrow> transaction list \<Rightarrow> transaction list" where
  "ingest localeCompare rows prev =
     (case parseCSV localeCompare rows prev of Inl e \<Rightarrow> prev | Inr s \<Rightarrow> s)"

definition clearData :: "transaction list \<Rightarrow> transaction list" where
  "clearData prev = []"

section \<open>The store and its persisted copy\<close>

text \<open>
  The component's state, as far as the store goes: the \<open>transactions\<close> of \<open>useState\<close>
  and the slot of \<open>localStorage\<close> under \<open>STORAGE_KEY\<close> (\<open>None\<close> when the key is absent).
\<close>

record app =
  transactions :: "transaction list"
  stored :: "transaction list option"

text \<open>The effect that runs whenever \<open>transactions\<close> has changed: an empty list is not saved.\<close>

definition saveEffect :: "app \<Rightarrow> app" where
  "saveEffect s = (if length (transactions s) > 0 then s\<lparr>stored := Some (transactions s)\<rparr> else s)"

text \<open>
  What happens to the store: the page is mounted (the state starts empty and the saved list,
  if there is one, is loaded as it is), the rows of a dropped file arrive, or the data is
  cleared.
\<close>

datatype event = Mount | Complete "row list" | ClearData

fun step :: "(string \<Rightarrow> string \<Rightarrow> int) \<Rightarrow> app \<Rightarrow> event \<Rightarrow> app" where
  "step localeCompare s Mount =
     (case stored s of
        None \<Rightarrow> s\<lparr>transactions := []\<rparr>
      | Some parsed \<Rightarrow> saveEffect (s\<lparr>transactions := parsed\<rparr>))"
| "step localeCompare s (Complete rows) =
     saveEffect (s\<lparr>transactions := ingest localeCompare rows (transactions s)\<rparr>)"
| "step localeCompare s ClearData =
     s\<lparr>transactions := clearData (transactions s), stored := None\<rparr>"

definition initial :: app where
  "initial = \<lparr>transactions = [], stored = None\<rparr>"

definition run :: "(string \<Rightarrow> string \<Rightarrow> int) \<Rightarrow> event list \<Rightarrow> app" where
  "run localeCompare events = foldl (step localeCompare) initial events"

text \<open>The form of a date the store is meant to hold: \<open>YYYY-MM-DD\<close>.\<close>

definition isoForm :: "string \<Rightarrow> bool" where
  "isoForm s =
     (length s = 10 \<and> s ! 4 = CHR ''-'' \<and> s ! 7 = CHR ''-'' \<and>
      (\<forall>i \<in> set [0, 1, 2, 3, 5, 6, 8, 9]. isDigit (s ! i)))"

text \<open>A store in date order, under the collation that sorted it.\<close>

definition byDate :: "(string \<Rightarrow> string \<Rightarrow> int) \<Rightarrow> transaction list \<Rightarrow> bool" where
  "byDate localeCompare s = sorted_wrt (\<lambda>a b. localeCompare (date a) (date b) \<le> 0) s"

section \<open>Category colours\<close>

definition colors :: "(string \<times> string) list" where
  "colors =
     [(''Groceries'', ''#10b981''),
      (''Gas'', ''#f59e0b''),
      (''Restaurants'', ''#ef4444''),
      (''Entertainment'', ''#8b5cf6''),
      (''Shopping'', ''#ec4899''),
      (''Travel'', ''#3b82f6''),
      (''Bills & Utilities'', ''#14b8a6''),
      (''Healthcare'', ''#06b6d4''),
      (''Personal'', ''#f97316''),
      (''Professional Services'', ''#6366f1''),
      (''Home'', ''#84cc16''),
      (''Automotive'', ''#eab308''),
      (''Education'', ''#0ea5e9''),
      (''Gifts & Donations'', ''#d946ef''),
      (''Uncategorized'', ''#6b7280'')]"

text \<open>The loop over the code units of the category \<open>c\<close>, \<open>hash\<close> starting at 0.\<close>

definition hashOf :: "string \<Rightarrow> int" where
  "hashOf c =
     foldl (\<lambda>hash i. charCodeAt c i + (shiftLeft hash 5 - hash)) 0 [0..<length c]"

definition getCategoryColor :: "string \<Rightarrow> jsvalue" where
  "getCategoryColor c =
     (if truthy (getProperty colors c) then getProperty colors c
      else (let hash = hashOf c;
                hue = remainder hash 360
            in Str (''hsl('' @ intToString hue @ '', 70%, 50%)'')))"

section \<open>Dropped files\<close>

record droppedFile =
  name :: string
  contents :: "row list"

text \<open>\<open>handleDrop\<close>: the files that are passed on to \<open>parseCSV\<close>, in their order.\<close>

definition handleDrop :: "droppedFile list \<Rightarrow> droppedFile list" where
  "handleDrop files =
     filter (\<lambda>file. endsWith (name file) ''.csv'' \<or> endsWith (name file) ''.CSV'') files"

text \<open>
  The reading of the specification, for comparison: the name ends in \<open>.csv\<close> when letters
  are compared without regard to case.
\<close>

definition toLowerCase :: "string \<Rightarrow> string" where
  "toLowerCase s =
     map (\<lambda>c. if CHR ''A'' \<le> c \<and> c \<le> CHR ''Z'' then char_of (of_char c + (32::nat)) else c) s"

definition endsWithIgnoringCase :: "string \<Rightarrow> string \<Rightarrow> bool" where
  "endsWithIgnoringCase str s = endsWith (toLowerCase str) (toLowerCase s)"

section \<open>Chart data\<close>

text \<open>
  A dataset of the chart: its label, its numbers, its two colours, and where the code gives
  them its type and stack. The options that are the same constants in every dataset of a
  kind (line tension, fill, widths, data labels) are left out.
\<close>

record dataset =
  label :: string
  data :: "real list"
  borderColor :: jsvalue
  backgroundColor :: jsvalue
  type :: "string option"
  stack :: "string option"

record chartData =
  labels :: "string list"
  datasets :: "dataset list"

text \<open>The x-axis: the distinct dates, sorted as strings by their code units.\<close>

definition allDates :: "transaction list \<Rightarrow> string list" where
  "allDates ts = sortBy codeUnitCompare (fromSet (map date ts))"

definition dailyMap :: "transaction list \<Rightarrow> (string \<rightharpoonup> real)" where
  "dailyMap ts =
     foldl (\<lambda>m t. (let current = orZero (m (date t)) in m(date t \<mapsto> current + amount t)))
       Map.empty ts"

text \<open>The map over \<open>allDates\<close> that adds each day's amount to the variable \<open>cumulative\<close>.\<close>

fun accumulate :: "(string \<rightharpoonup> real) \<Rightarrow> real \<Rightarrow> string list \<Rightarrow> real list" where
  "accumulate m cumulative [] = []"
| "accumulate m cumulative (d # ds) =
     (let dailyAmount = orZero (m d)
      in (cumulative + dailyAmount) # accumulate m (cumulative + dailyAmount) ds)"

definition cumulativeData :: "transaction list \<Rightarrow> real list" where
  "cumulativeData ts = accumulate (dailyMap ts) 0 (allDates ts)"

definition categories :: "transaction list \<Rightarrow> string list" where
  "categories ts = sortBy codeUnitCompare (fromSet (map category ts))"

definition dailyCategoryMap :: "transaction list \<Rightarrow> (string \<rightharpoonup> (string \<rightharpoonup> real))" where
  "dailyCategoryMap ts =
     foldl (\<lambda>m t.
         (let categoryMap = (case m (date t) of None \<Rightarrow> Map.empty | Some c \<Rightarrow> c);
              current = orZero (categoryMap (category t))
          in m(date t \<mapsto> categoryMap(category t \<mapsto> current + amount t))))
       Map.empty ts"

definition categoryData :: "transaction list \<Rightarrow> string \<Rightarrow> real list" where
  "categoryData ts c =
     map (\<lambda>d. case dailyCategoryMap ts d of None \<Rightarrow> 0 | Some categoryMap \<Rightarrow> orZero (categoryMap c))
       (allDates ts)"

definition totalData :: "transaction list \<Rightarrow> real list" where
  "totalData ts = map (\<lambda>d. orZero (dailyMap ts d)) (allDates ts)"

text \<open>
  The key of the week of a date, as both loops of the weekly view compute it. An Invalid
  Date passes through the arithmetic and makes \<open>toISOString\<close> throw.
\<close>

definition weekKey :: "int \<Rightarrow> string \<Rightarrow> error + string" where
  "weekKey utcOffset s =
     (case dateParse s of
        None \<Rightarrow> Inl RangeError
      | Some d \<Rightarrow>
          (let day = getDay utcOffset d;
               diff = getDate utcOffset d - day + (if day = 0 then - 6 else 1);
               monday = setDate utcOffset d diff
           in Inr (hd (split CHR ''T'' (toISOString monday)))))"

fun weeklyMap :: "int \<Rightarrow> (string \<rightharpoonup> real) \<Rightarrow> transaction list \<Rightarrow> error + (string \<rightharpoonup> real)" where
  "weeklyMap utcOffset m [] = Inr m"
| "weeklyMap utcOffset m (t # ts) =
     (case weekKey utcOffset (date t) of
        Inl e \<Rightarrow> Inl e
      | Inr k \<Rightarrow> (let current = orZero (m k) in weeklyMap utcOffset (m(k \<mapsto> current + amount t)) ts))"

fun weeklyValues :: "int \<Rightarrow> (string \<rightharpoonup> real) \<Rightarrow> string list \<Rightarrow> error + real list" where
  "weeklyValues utcOffset m [] = Inr []"
| "weeklyValues utcOffset m (d # ds) =
     (case weekKey utcOffset d of
        Inl e \<Rightarrow> Inl e
      | Inr k \<Rightarrow>
          (case weeklyValues utcOffset m ds of
             Inl e \<Rightarrow> Inl e
           | Inr vs \<Rightarrow> Inr (orZero (m k) # vs)))"

definition weeklyData :: "int \<Rightarrow> transaction list \<Rightarrow> error + real list" where
  "weeklyData utcOffset ts =
     (case weeklyMap utcOffset Map.empty ts of
        Inl e \<Rightarrow> Inl e
      | Inr m \<Rightarrow> weeklyValues utcOffset m (allDates ts))"

definition noData :: dataset where
  "noData = \<lparr>label = ''No data'', data = [], borderColor = Str ''#666'',
             backgroundColor = Str ''rgba(102, 102, 102, 0.1)'', type = None, stack = None\<rparr>"

definition cumulativeDataset :: "transaction list \<Rightarrow> dataset" where
  "cumulativeDataset ts =
     \<lparr>label = ''Cumulative'', data = cumulativeData ts, borderColor = Str ''#ffffff'',
      backgroundColor = Str ''rgba(255, 255, 255, 0.1)'', type = None, stack = None\<rparr>"

definition categoryDataset :: "transaction list \<Rightarrow> string \<Rightarrow> dataset" where
  "categoryDataset ts c =
     (let color = getCategoryColor c
      in \<lparr>label = c, data = categoryData ts c, borderColor = color, backgroundColor = color,
          type = Some ''bar'', stack = Some ''stack1''\<rparr>)"

definition totalDataset :: "transaction list \<Rightarrow> dataset" where
  "totalDataset ts =
     \<lparr>label = ''Total (Daily)'', data = totalData ts, borderColor = Str ''transparent'',
      backgroundColor = Str ''transparent'', type = Some ''bar'', stack = Some ''total-label''\<rparr>"

definition weeklyDataset :: "real list \<Rightarrow> dataset" where
  "weeklyDataset values =
     \<lparr>label = ''Weekly'', data = values, borderColor = Str ''#666666'',
      backgroundColor = Str ''rgba(102, 102, 102, 0.1)'', type = None, stack = None\<rparr>"

text \<open>\<open>getChartData\<close>, from the transactions and the enabled views of the component's state.\<close>

definition getChartData :: "int \<Rightarrow> transaction list \<Rightarrow> ViewMode set \<Rightarrow> error + chartData" where
  "getChartData utcOffset ts enabledViews =
     (if length ts = 0 \<or> enabledViews = {} then Inr \<lparr>labels = [], datasets = [noData]\<rparr>
      else
        (let cumulative = (if Cumulative \<in> enabledViews then [cumulativeDataset ts] else []);
             daily = (if Daily \<in> enabledViews
                      then map (categoryDataset ts) (categories ts) @ [totalDataset ts] else [])
         in if Weekly \<in> enabledViews then
              (case weeklyData utcOffset ts of
                 Inl e \<Rightarrow> Inl e
               | Inr values \<Rightarrow>
                   Inr \<lparr>labels = allDates ts, datasets = cumulative @ daily @ [weeklyDataset values]\<rparr>)
            else Inr \<lparr>labels = allDates ts, datasets = cumulative @ daily\<rparr>))"

section \<open>Tooltip\<close>

definition padRight :: "string \<Rightarrow> nat \<Rightarrow> string" where
  "padRight text len = text @ replicate (nat (max 0 (int len - int (length text)))) CHR '' ''"

text \<open>The description as a transaction line of the tooltip shows it.\<close>

definition shownDescription :: "transaction \<Rightarrow> string" where
  "shownDescription t =
     (if length (description t) > 35 then substring0 32 (description t) @ ''...''
      else description t)"

definition transactionLine :: "transaction \<Rightarrow> string" where
  "transactionLine t =
     (let sign = (if amount t > 0 then ''+'' else []);
          descLine = padRight (''    '' @ shownDescription t) 40
      in descLine @ sign @ ''$'' @ toFixed 2 \<bar>amount t\<bar>)"

text \<open>The \<open>Map\<close> from a category to its transactions, in the order the categories first occur.\<close>

fun pushTo :: "string \<Rightarrow> transaction \<Rightarrow> (string \<times> transaction list) list \<Rightarrow> (string \<times> transaction list) list" where
  "pushTo k t [] = [(k, [t])]"
| "pushTo k t ((k', txns) # m) =
     (if k = k' then (k', txns @ [t]) # m else (k', txns) # pushTo k t m)"

definition categoryLines :: "string \<times> transaction list \<Rightarrow> string list" where
  "categoryLines entry =
     (case entry of (c, txns) \<Rightarrow>
        (let categoryTotal = foldl (\<lambda>sum t. sum + amount t) 0 txns;
             categoryLine = padRight (''  '' @ c @ '':'') 30
         in (categoryLine @ ''$'' @ toFixed 2 \<bar>categoryTotal\<bar>) # map transactionLine txns))"

text \<open>
  The \<open>label\<close> callback of the tooltip, for the hovered date, value and dataset label.
\<close>

definition tooltipLabel ::
  "(string \<Rightarrow> string \<Rightarrow> int) \<Rightarrow> transaction list \<Rightarrow> string \<Rightarrow> real \<Rightarrow> string \<Rightarrow> string list" where
  "tooltipLabel localeCompare ts d v datasetLabel =
     (let dayTransactions = filter (\<lambda>t. date t = d) ts
      in if datasetLabel = ''Total (Daily)'' then []
         else
           (let categoryMap = foldl (\<lambda>m t. pushTo (category t) t m) [] dayTransactions
            in [datasetLabel @ '': $'' @ toFixed 2 \<bar>v\<bar>, []] @
               (if length categoryMap > 0 then
                  ''Category Breakdown:'' #
                  concat (map categoryLines
                    (sortBy (\<lambda>a b. localeCompare (fst a) (fst b)) categoryMap))
                else [])))"

text \<open>The sum of the amounts of the transactions of one date.\<close>

definition dayTotal :: "transaction list \<Rightarrow> string \<Rightarrow> real" where
  "dayTotal ts d = sum_list (map amount (filter (\<lambda>t. date t = d) ts))"

section \<open>Dates of the form the bank exports\<close>

text \<open>
  A date as the comment in \<open>parseCSV\<close> expects it, \<open>MM/DD/YYYY\<close>: three parts between
  slashes, a month and a day of one or two digits and a year of four.
\<close>

definition slashDate :: "string \<Rightarrow> bool" where
  "slashDate s =
     (case split CHR ''/'' s of
        [month, day, year] \<Rightarrow>
          1 \<le> length month \<and> length month \<le> 2 \<and> list_all isDigit month \<and>
          1 \<le> length day \<and> length day \<le> 2 \<and> list_all isDigit day \<and>
          length year = 4 \<and> list_all isDigit year
      | _ \<Rightarrow> False)"

text \<open>A row whose date, if it has one, is of that form; and an event whose rows all are.\<close>

definition datedRow :: "row \<Rightarrow> bool" where
  "datedRow row =
     (case row ''Transaction Date'' of None \<Rightarrow> True | Some s \<Rightarrow> s = [] \<or> slashDate s)"

fun datedEvent :: "event \<Rightarrow> bool" where
  "datedEvent (Complete rows) = list_all datedRow rows"
| "datedEvent Mount = True"
| "datedEvent ClearData = True"

text \<open>A store all of whose dates are in ISO form.\<close>

definition isoDates :: "transaction list \<Rightarrow> bool" where
  "isoDates s = list_all (\<lambda>t. isoForm (date t)) s"

text \<open>A store in the order of its date strings, compared by code units.\<close>

definition lexicographic :: "transaction list \<Rightarrow> bool" where
  "lexicographic s = sorted_wrt (\<lambda>a b. date a \<le> date b) s"

text \<open>The events of \<open>run\<close>, from any state of the store and its saved copy.\<close>

definition runFrom :: "(string \<Rightarrow> string \<Rightarrow> int) \<Rightarrow> app \<Rightarrow> event list \<Rightarrow> app" where
  "runFrom localeCompare s events = foldl (step localeCompare) s events"

text \<open>
  A collation that, as those of the usual locales do, orders letters by the alphabet before
  their case, so that \<open>a\<close> comes before \<open>B\<close>; by code units \<open>B\<close> comes first. On strings
  without capital letters it is the comparison by code units.
\<close>

definition foldedCompare :: "string \<Rightarrow> string \<Rightarrow> int" where
  "foldedCompare a b = codeUnitCompare (toLowerCase a) (toLowerCase b)"

definition letterRows :: "row list" where
  "letterRows =
     [[''Transaction Date'' \<mapsto> ''01/15/a'', ''Amount'' \<mapsto> ''-1''],
      [''Transaction Date'' \<mapsto> ''01/15/B'', ''Amount'' \<mapsto> ''-2'']]"

section \<open>Sample data\<close>

definition sampleRows :: "row list" where
  "sampleRows =
     [[''Transaction Date'' \<mapsto> ''01/15/2024'', ''Amount'' \<mapsto> ''-12.50'',
       ''Description'' \<mapsto> ''COFFEE'', ''Category'' \<mapsto> ''Food''],
      [''Transaction Date'' \<mapsto> ''01/05/2024'', ''Amount'' \<mapsto> ''3'']]"

definition mondayWednesday :: "transaction list" where
  "mondayWednesday =
     [\<lparr>date = ''2024-01-01'', amount = 20, description = ''MARKET'', category = ''Groceries''\<rparr>,
      \<lparr>date = ''2024-01-03'', amount = 5, description = ''COFFEE'', category = ''Restaurants''\<rparr>]"

definition threeDays :: "transaction list" where
  "threeDays =
     [\<lparr>date = ''2024-01-01'', amount = 10, description = ''MARKET'', category = ''Groceries''\<rparr>,
      \<lparr>date = ''2024-01-02'', amount = - 3, description = ''REFUND'', category = ''Shopping''\<rparr>,
      \<lparr>date = ''2024-01-03'', amount = 5, description = ''COFFEE'', category = ''Restaurants''\<rparr>]"

definition longTransaction :: transaction where
  "longTransaction =
     \<lparr>date = ''2024-01-02'', amount = 7,
      description = ''01234567890123456789012345678901234567890123456789'', category = ''Shopping''\<rparr>"

definition droppedFiles :: "droppedFile list" where
  "droppedFiles =
     [\<lparr>name = ''january.csv'', contents = sampleRows\<rparr>,
      \<lparr>name = ''FEBRUARY.CSV'', contents = []\<rparr>,
      \<lparr>name = ''march.Csv'', contents = sampleRows\<rparr>,
      \<lparr>name = ''notes.txt'', contents = []\<rparr>]"

section \<open>Properties of the runtime's arrays\<close>

lemma findIndex_ge: "- 1 \<le> findIndex p xs"
  by (induction xs) (auto simp: Let_def)

lemma findIndex_eq_iff:
  "findIndex p xs = int i \<longleftrightarrow> i < length xs \<and> p (xs ! i) \<and> (\<forall>j<i. \<not> p (xs ! j))"
proof (induction xs arbitrary: i)
  case Nil
  then show ?case by simp
next
  case (Cons x xs)
  show ?case
  proof (cases "p x")
    case True
    then show ?thesis by (cases i) auto
  next
    case False
    show ?thesis
    proof (cases i)
      case 0
      with False findIndex_ge [of p xs] show ?thesis by (auto simp: Let_def)
    next
      case (Suc k)
      have "findIndex p (x # xs) = int (Suc k) \<longleftrightarrow> findIndex p xs = int k"
        using False findIndex_ge [of p xs] by (auto simp: Let_def)
      also have "\<dots> \<longleftrightarrow> k < length xs \<and> p (xs ! k) \<and> (\<forall>j<k. \<not> p (xs ! j))"
        by (rule Cons.IH)
      also have "\<dots> \<longleftrightarrow> Suc k < length (x # xs) \<and> p ((x # xs) ! Suc k) \<and> (\<forall>j<Suc k. \<not> p ((x # xs) ! j))"
        using False by (auto simp: less_Suc_eq_0_disj)
      finally show ?thesis using Suc by simp
    qed
  qed
qed

lemma sameKey_iff: "sameKey t u \<longleftrightarrow> t = u"
  by (cases t, cases u) (auto simp: sameKey_def)

lemma unique_snoc: "unique (xs @ [x]) = unique xs @ (if x \<in> set xs then [] else [x])"
proof -
  have old: "filter (\<lambda>(index, element). int index = findIndex (\<lambda>t. sameKey t element) (xs @ [x])) (enumerate 0 xs)
      = filter (\<lambda>(index, element). int index = findIndex (\<lambda>t. sameKey t element) xs) (enumerate 0 xs)"
  proof (rule filter_cong [OF refl])
    fix ie assume "ie \<in> set (enumerate 0 xs)"
    then obtain i where i: "i < length xs" "ie = (i, xs ! i)"
      by (auto simp: in_set_enumerate_eq prod_eq_iff)
    have a: "(xs @ [x]) ! i = xs ! i"
      using i(1) by (simp add: nth_append)
    have b: "\<And>j. j < i \<Longrightarrow> (xs @ [x]) ! j = xs ! j"
      using i(1) by (simp add: nth_append)
    have c: "(findIndex (\<lambda>t. sameKey t (xs ! i)) (xs @ [x]) = int i)
        = (i < length (xs @ [x]) \<and> sameKey ((xs @ [x]) ! i) (xs ! i)
           \<and> (\<forall>j<i. \<not> sameKey ((xs @ [x]) ! j) (xs ! i)))"
      by (rule findIndex_eq_iff)
    have d: "(findIndex (\<lambda>t. sameKey t (xs ! i)) xs = int i)
        = (i < length xs \<and> sameKey (xs ! i) (xs ! i) \<and> (\<forall>j<i. \<not> sameKey (xs ! j) (xs ! i)))"
      by (rule findIndex_eq_iff)
    have "(findIndex (\<lambda>t. sameKey t (xs ! i)) (xs @ [x]) = int i) = (findIndex (\<lambda>t. sameKey t (xs ! i)) xs = int i)"
      unfolding c d using i(1) a b by auto
    then have "(int i = findIndex (\<lambda>t. sameKey t (xs ! i)) (xs @ [x])) = (int i = findIndex (\<lambda>t. sameKey t (xs ! i)) xs)"
      by (simp only: eq_commute [of "int i"])
    then show "(case ie of (index, element) \<Rightarrow> int index = findIndex (\<lambda>t. sameKey t element) (xs @ [x]))
        = (case ie of (index, element) \<Rightarrow> int index = findIndex (\<lambda>t. sameKey t element) xs)"
      by (simp only: i(2) prod.case)
  qed
  have "(findIndex (\<lambda>t. sameKey t x) (xs @ [x]) = int (length xs)) \<longleftrightarrow> x \<notin> set xs"
    unfolding findIndex_eq_iff by (auto simp: nth_append sameKey_iff in_set_conv_nth)
  then have last: "(int (length xs) = findIndex (\<lambda>t. sameKey t x) (xs @ [x])) \<longleftrightarrow> x \<notin> set xs"
    by (simp only: eq_commute [of "int (length xs)"])
  show ?thesis
    by (simp add: unique_def filterIndexed_def enumerate_append_eq old last)
qed

lemma unique_Nil: "unique [] = []"
  by (simp add: unique_def filterIndexed_def)

lemma set_unique: "set (unique xs) = set xs"
  by (induction xs rule: rev_induct) (auto simp: unique_snoc unique_Nil)

lemma distinct_unique: "distinct (unique xs)"
  by (induction xs rule: rev_induct) (auto simp: unique_snoc unique_Nil set_unique)

lemma unique_distinct: "distinct xs \<Longrightarrow> unique xs = xs"
  by (induction xs rule: rev_induct) (auto simp: unique_snoc unique_Nil)

lemma unique_append_known: "distinct s \<Longrightarrow> set ys \<subseteq> set s \<Longrightarrow> unique (s @ ys) = s"
proof (induction ys rule: rev_induct)
  case Nil
  then show ?case by (simp add: unique_distinct)
next
  case (snoc y ys)
  then show ?case using unique_snoc [of "s @ ys" y] by simp
qed

lemma set_insertSorted: "set (insertSorted c x xs) = insert x (set xs)"
  by (induction xs) auto

lemma set_sortBy: "set (sortBy c xs) = set xs"
  by (induction xs) (auto simp: sortBy_def set_insertSorted)

lemma length_insertSorted: "length (insertSorted c x xs) = Suc (length xs)"
  by (induction xs) auto

lemma length_sortBy: "length (sortBy c xs) = length xs"
  by (induction xs) (auto simp: sortBy_def length_insertSorted)

lemma distinct_insertSorted: "distinct (insertSorted c x xs) \<longleftrightarrow> x \<notin> set xs \<and> distinct xs"
  by (induction xs) (auto simp: set_insertSorted)

lemma distinct_sortBy: "distinct (sortBy c xs) \<longleftrightarrow> distinct xs"
  by (induction xs) (auto simp: sortBy_def distinct_insertSorted set_sortBy [unfolded sortBy_def])

lemma sorted_insertSorted:
  assumes "consistent c" "sorted_wrt (\<lambda>a b. c a b \<le> 0) xs"
  shows "sorted_wrt (\<lambda>a b. c a b \<le> 0) (insertSorted c x xs)"
  using assms(2)
proof (induction xs)
  case Nil
  then show ?case by simp
next
  case (Cons y ys)
  have tot: "\<And>a b. c a b \<le> 0 \<or> c b a \<le> 0" and tr: "\<And>a b d. c a b \<le> 0 \<Longrightarrow> c b d \<le> 0 \<Longrightarrow> c a d \<le> 0"
    using assms(1) unfolding consistent_def by blast+
  show ?case
  proof (cases "c x y \<le> 0")
    case True
    with Cons.prems tr show ?thesis by auto
  next
    case False
    with tot have "c y x \<le> 0" by blast
    with False Cons show ?thesis by (auto simp: set_insertSorted)
  qed
qed

lemma sorted_sortBy: "consistent c \<Longrightarrow> sorted_wrt (\<lambda>a b. c a b \<le> 0) (sortBy c xs)"
  by (induction xs) (auto simp: sortBy_def intro: sorted_insertSorted)

lemma sortBy_sorted: "sorted_wrt (\<lambda>a b. c a b \<le> 0) xs \<Longrightarrow> sortBy c xs = xs"
proof (induction xs)
  case Nil
  then show ?case by (simp add: sortBy_def)
next
  case (Cons x xs)
  then have "sortBy c xs = xs" by simp
  then have "sortBy c (x # xs) = insertSorted c x xs" by (simp add: sortBy_def)
  also have "\<dots> = x # xs" using Cons.prems by (cases xs) auto
  finally show ?case .
qed

lemma consistent_on_dates:
  "consistent lc \<Longrightarrow> consistent (\<lambda>a b. lc (date a) (date b))"
  unfolding consistent_def by blast

lemma consistent_codeUnitCompare: "consistent codeUnitCompare"
  unfolding consistent_def codeUnitCompare_def by auto


lemma unique_first_occurrences: "unique xs = rev (remdups (rev xs))"
  by (induction xs rule: rev_induct) (auto simp: unique_snoc unique_Nil)

lemma set_mergeTransactions: "set (mergeTransactions lc prev new) = set prev \<union> set new"
  by (simp add: mergeTransactions_def set_sortBy set_unique)

lemma distinct_mergeTransactions: "distinct (mergeTransactions lc prev new)"
  by (simp add: mergeTransactions_def distinct_sortBy distinct_unique)

lemma sorted_mergeTransactions:
  "consistent lc \<Longrightarrow> sorted_wrt (\<lambda>a b. lc (date a) (date b) \<le> 0) (mergeTransactions lc prev new)"
  unfolding mergeTransactions_def by (rule sorted_sortBy) (rule consistent_on_dates)

lemma mergeTransactions_again:
  assumes "consistent lc"
  shows "mergeTransactions lc (mergeTransactions lc prev new) new = mergeTransactions lc prev new"
proof -
  let ?s = "mergeTransactions lc prev new"
  have "unique (?s @ new) = ?s"
    by (rule unique_append_known) (simp_all add: distinct_mergeTransactions set_mergeTransactions)
  then have "mergeTransactions lc ?s new = sortBy (\<lambda>a b. lc (date a) (date b)) ?s"
    by (simp add: mergeTransactions_def)
  also have "\<dots> = ?s"
    by (rule sortBy_sorted) (rule sorted_mergeTransactions [OF assms])
  finally show ?thesis .
qed

section \<open>Properties of the store\<close>

lemma step_invariant:
  assumes "consistent lc"
    and "byDate lc (transactions s)" "\<forall>p. stored s = Some p \<longrightarrow> byDate lc p"
  shows "byDate lc (transactions (step lc s e)) \<and> (\<forall>p. stored (step lc s e) = Some p \<longrightarrow> byDate lc p)"
proof (cases e)
  case Mount
  with assms(2,3) show ?thesis by (cases "stored s") (auto simp: saveEffect_def byDate_def)
next
  case (Complete rows)
  have "byDate lc (ingest lc rows (transactions s))"
    using assms(2) sorted_mergeTransactions [OF assms(1)]
    by (cases "newTransactions rows") (simp_all add: ingest_def parseCSV_def byDate_def)
  with Complete assms(3) show ?thesis by (auto simp: saveEffect_def)
next
  case ClearData
  then show ?thesis by (simp add: clearData_def byDate_def)
qed

lemma run_invariant:
  assumes "consistent lc"
  shows "byDate lc (transactions (run lc events)) \<and> (\<forall>p. stored (run lc events) = Some p \<longrightarrow> byDate lc p)"
proof (induction events rule: rev_induct)
  case Nil
  then show ?case by (simp add: run_def initial_def byDate_def)
next
  case (snoc e events)
  have "run lc (events @ [e]) = step lc (run lc events) e"
    by (simp add: run_def)
  with step_invariant [OF assms, of "run lc events" e] snoc show ?case by simp
qed

lemmas runtime_defs = at_index_def padStart_def template_def or_else_def parseFloat_def isDigit_def
  isStrWhiteSpace_def digitsValue_def digitValue_def pow10_def Let_def filterIndexed_def
  sortBy_def codeUnitCompare_def

lemmas ingest_defs = normalizeRow_def sameKey_def unique_def mergeTransactions_def parseCSV_def
  ingest_def clearData_def

lemmas store_defs = run_def initial_def saveEffect_def

lemma ingest_sampleRows:
  "ingest codeUnitCompare sampleRows [] =
     [\<lparr>date = ''2024-01-05'', amount = - 3, description = ''Unknown'', category = ''Uncategorized''\<rparr>,
      \<lparr>date = ''2024-01-15'', amount = 25 / 2, description = ''COFFEE'', category = ''Food''\<rparr>]"
  by (simp add: sampleRows_def runtime_defs ingest_defs)

text \<open>
  C1. Ingesting the rows of a file a second time changes nothing: the store after the second
  ingestion is the store after the first, record for record, and so has the same length.
  This holds from every prior store and for every list of rows, under every consistent
  collation. A completed ingestion keeps the first occurrence of each record of the old store
  followed by the new rows, in their order, and sorts them by date, so no two records of the
  result agree in date, amount, description and category.
\<close>

theorem ingest_twice_same:
  assumes "consistent lc"
  shows "ingest lc rows (ingest lc rows prev) = ingest lc rows prev \<and>
         length (ingest lc rows (ingest lc rows prev)) = length (ingest lc rows prev) \<and>
         (\<forall>new. newTransactions rows = Inr new \<longrightarrow>
            ingest lc rows prev
              = sortBy (\<lambda>a b. lc (date a) (date b)) (rev (remdups (rev (prev @ new)))) \<and>
            distinct (ingest lc rows prev))"
proof -
  have eq: "ingest lc rows (ingest lc rows prev) = ingest lc rows prev"
    by (cases "newTransactions rows")
       (simp_all add: ingest_def parseCSV_def mergeTransactions_again [OF assms])
  then have len: "length (ingest lc rows (ingest lc rows prev)) = length (ingest lc rows prev)"
    by simp
  have first: "\<forall>new. newTransactions rows = Inr new \<longrightarrow>
            ingest lc rows prev
              = sortBy (\<lambda>a b. lc (date a) (date b)) (rev (remdups (rev (prev @ new)))) \<and>
            distinct (ingest lc rows prev)"
    by (auto simp: ingest_def parseCSV_def mergeTransactions_def unique_first_occurrences
          distinct_sortBy)
  from eq len first show ?thesis by blast
qed

theorem ingest_twice_same_witness:
  "ingest codeUnitCompare sampleRows (ingest codeUnitCompare sampleRows []) =
     [\<lparr>date = ''2024-01-05'', amount = - 3, description = ''Unknown'', category = ''Uncategorized''\<rparr>,
      \<lparr>date = ''2024-01-15'', amount = 25 / 2, description = ''COFFEE'', category = ''Food''\<rparr>]"
proof -
  have "ingest codeUnitCompare sampleRows (ingest codeUnitCompare sampleRows [])
      = ingest codeUnitCompare sampleRows []"
    using ingest_twice_same [OF consistent_codeUnitCompare, of sampleRows "[]"] by blast
  then show ?thesis by (simp only: ingest_sampleRows)
qed

text \<open>
  Rows with dates of the form \<open>MM/DD/YYYY\<close> are normalised without an exception, to dates in ISO form; so
  a store fed only such rows holds only ISO dates.
\<close>

lemma isDigit_zero: "isDigit CHR ''0''"
  by (simp add: isDigit_def)

lemma padStart_two:
  assumes "1 \<le> length m" "length m \<le> 2" "list_all isDigit m"
  shows "length (padStart 2 CHR ''0'' m) = 2 \<and> list_all isDigit (padStart 2 CHR ''0'' m)"
  using assms by (auto simp: padStart_def isDigit_zero list_all_iff)

lemma isoForm_built:
  assumes "length y = 4" "list_all isDigit y" "length m = 2" "list_all isDigit m"
    "length d = 2" "list_all isDigit d"
  shows "isoForm (y @ ''-'' @ m @ ''-'' @ d)"
proof -
  obtain y0 y1 y2 y3 where y: "y = [y0, y1, y2, y3]"
    using assms(1) by (auto simp: length_Suc_conv eval_nat_numeral)
  obtain m0 m1 where m: "m = [m0, m1]"
    using assms(3) by (auto simp: length_Suc_conv eval_nat_numeral)
  obtain d0 d1 where d: "d = [d0, d1]"
    using assms(5) by (auto simp: length_Suc_conv eval_nat_numeral)
  show ?thesis
    using assms(2,4,6) by (simp add: y m d isoForm_def)
qed

lemma normalizeRow_dated:
  assumes "datedRow row"
  shows "\<exists>r. normalizeRow row = Inr r \<and> (\<forall>t. r = Some t \<longrightarrow> isoForm (date t))"
proof (cases "row ''Transaction Date''")
  case None
  then show ?thesis by (simp add: normalizeRow_def)
next
  case s: (Some s)
  show ?thesis
  proof (cases "row ''Amount''")
    case None
    with s show ?thesis by (simp add: normalizeRow_def)
  next
    case a: (Some a)
    show ?thesis
    proof (cases "s \<noteq> [] \<and> a \<noteq> []")
      case False
      with s a show ?thesis by (auto simp: normalizeRow_def)
    next
      case True
      with assms s have "slashDate s" by (simp add: datedRow_def)
      then obtain m d y where parts: "split CHR ''/'' s = [m, d, y]"
        and m: "1 \<le> length m" "length m \<le> 2" "list_all isDigit m"
        and d: "1 \<le> length d" "length d \<le> 2" "list_all isDigit d"
        and y: "length y = 4" "list_all isDigit y"
        by (auto simp: slashDate_def split: list.splits)
      have iso: "isoForm (y @ ''-'' @ padStart 2 CHR ''0'' m @ ''-'' @ padStart 2 CHR ''0'' d)"
        using padStart_two [OF m] padStart_two [OF d] y by (intro isoForm_built) simp_all
      show ?thesis
        using True s a iso
        by (cases "parseFloat a")
           (simp_all add: normalizeRow_def parts at_index_def template_def Let_def)
    qed
  qed
qed

lemma newTransactions_dated:
  "list_all datedRow rows \<Longrightarrow> \<exists>new. newTransactions rows = Inr new \<and> isoDates new"
proof (induction rows)
  case Nil
  then show ?case by (simp add: isoDates_def)
next
  case (Cons row rows)
  then obtain new where new: "newTransactions rows = Inr new" "isoDates new" by auto
  from Cons.prems obtain r where r: "normalizeRow row = Inr r" "\<forall>t. r = Some t \<longrightarrow> isoForm (date t)"
    using normalizeRow_dated [of row] by auto
  show ?case using new r by (cases r) (auto simp: isoDates_def)
qed

lemma isoDates_ingest:
  assumes "list_all datedRow rows" "isoDates prev"
  shows "isoDates (ingest lc rows prev)"
proof -
  obtain new where new: "newTransactions rows = Inr new" "isoDates new"
    using newTransactions_dated [OF assms(1)] by blast
  then have "set (ingest lc rows prev) = set prev \<union> set new"
    by (simp add: ingest_def parseCSV_def set_mergeTransactions)
  with new(2) assms(2) show ?thesis by (auto simp: isoDates_def list_all_iff)
qed

lemma step_iso:
  assumes "datedEvent e" "isoDates (transactions s)" "\<forall>p. stored s = Some p \<longrightarrow> isoDates p"
  shows "isoDates (transactions (step lc s e)) \<and> (\<forall>p. stored (step lc s e) = Some p \<longrightarrow> isoDates p)"
proof (cases e)
  case Mount
  with assms(2,3) show ?thesis by (cases "stored s") (auto simp: saveEffect_def isoDates_def)
next
  case (Complete rows)
  with assms(1) have "list_all datedRow rows" by simp
  then have "isoDates (ingest lc rows (transactions s))"
    using assms(2) by (rule isoDates_ingest)
  with Complete assms(3) show ?thesis by (auto simp: saveEffect_def)
next
  case ClearData
  then show ?thesis by (simp add: clearData_def isoDates_def)
qed

lemma runFrom_snoc: "runFrom lc s (events @ [e]) = step lc (runFrom lc s events) e"
  by (simp add: runFrom_def)

lemma runFrom_iso:
  assumes "list_all datedEvent events" "isoDates (transactions s)"
    "\<forall>p. stored s = Some p \<longrightarrow> isoDates p"
  shows "isoDates (transactions (runFrom lc s events)) \<and>
         (\<forall>p. stored (runFrom lc s events) = Some p \<longrightarrow> isoDates p)"
  using assms(1)
proof (induction events rule: rev_induct)
  case Nil
  with assms(2,3) show ?case by (simp add: runFrom_def)
next
  case (snoc e events)
  then have "datedEvent e" and "isoDates (transactions (runFrom lc s events)) \<and>
         (\<forall>p. stored (runFrom lc s events) = Some p \<longrightarrow> isoDates p)"
    by simp_all
  then show ?case
    using step_iso [of e "runFrom lc s events" lc] by (simp only: runFrom_snoc) blast
qed

lemma runFrom_sorted:
  assumes "consistent lc" "byDate lc (transactions s)" "\<forall>p. stored s = Some p \<longrightarrow> byDate lc p"
  shows "byDate lc (transactions (runFrom lc s events)) \<and>
         (\<forall>p. stored (runFrom lc s events) = Some p \<longrightarrow> byDate lc p)"
proof (induction events rule: rev_induct)
  case Nil
  with assms(2,3) show ?case by (simp add: runFrom_def)
next
  case (snoc e events)
  then show ?case
    using step_invariant [OF assms(1), of "runFrom lc s events" e]
    by (simp only: runFrom_snoc) blast
qed

lemma run_runFrom: "run lc events = runFrom lc initial events"
  by (simp add: run_def runFrom_def)

lemma lexicographic_iso:
  assumes "\<forall>a b. isoForm a \<and> isoForm b \<longrightarrow> (lc a b \<le> 0 \<longleftrightarrow> a \<le> b)"
    "isoDates s" "byDate lc s"
  shows "lexicographic s"
  using assms(3) unfolding byDate_def lexicographic_def
  by (rule sorted_wrt_mono_rel [rotated]) (use assms(1,2) in \<open>auto simp: isoDates_def list_all_iff\<close>)

lemma consistent_fold: "consistent c \<Longrightarrow> consistent (\<lambda>a b. c (f a) (f b))"
  unfolding consistent_def by blast

lemma consistent_foldedCompare: "consistent foldedCompare"
  using consistent_fold [OF consistent_codeUnitCompare, of toLowerCase]
  by (simp add: foldedCompare_def [abs_def])

lemma digit_not_capital:
  assumes "isDigit c \<or> c = CHR ''-''"
  shows "\<not> (CHR ''A'' \<le> c \<and> c \<le> CHR ''Z'')"
proof
  assume capital: "CHR ''A'' \<le> c \<and> c \<le> CHR ''Z''"
  from assms show False
  proof
    assume "isDigit c"
    then have "c \<le> CHR ''9''" by (simp add: isDigit_def)
    with capital have "CHR ''A'' \<le> CHR ''9''" using order_trans by blast
    then show False by simp
  next
    assume "c = CHR ''-''"
    with capital show False by simp
  qed
qed

lemma isoForm_chars:
  assumes "isoForm a" "c \<in> set a"
  shows "isDigit c \<or> c = CHR ''-''"
proof -
  from assms(1) have "length a = 10" by (simp add: isoForm_def)
  then obtain c0 c1 c2 c3 c4 c5 c6 c7 c8 c9 where a: "a = [c0, c1, c2, c3, c4, c5, c6, c7, c8, c9]"
    by (auto simp: length_Suc_conv eval_nat_numeral)
  from assms show ?thesis by (auto simp: a isoForm_def)
qed

lemma toLowerCase_iso: "isoForm a \<Longrightarrow> toLowerCase a = a"
  unfolding toLowerCase_def
  by (rule map_idI) (use isoForm_chars digit_not_capital in auto)

lemma foldedCompare_iso:
  "isoForm a \<and> isoForm b \<longrightarrow> (foldedCompare a b \<le> 0 \<longleftrightarrow> a \<le> b)"
  by (auto simp: foldedCompare_def toLowerCase_iso codeUnitCompare_def)

lemma ingest_letterRows:
  "ingest foldedCompare letterRows [] =
     [\<lparr>date = ''a-01-15'', amount = 1, description = ''Unknown'', category = ''Uncategorized''\<rparr>,
      \<lparr>date = ''B-01-15'', amount = 2, description = ''Unknown'', category = ''Uncategorized''\<rparr>]"
  by code_simp

text \<open>
  C5, as the claim states it, fails. The store is sorted by \<open>localeCompare\<close>, and the dates
  it holds are whatever the parts of the row's date make. Under a consistent collation that
  orders letters as locales do, the rows dated \<open>01/15/a\<close> and \<open>01/15/B\<close> leave the store
  holding \<open>a-01-15\<close> before \<open>B-01-15\<close>, which is not the order of the strings by code units.
\<close>

theorem store_not_lexicographic:
  "consistent foldedCompare \<and>
   transactions (run foldedCompare [Complete letterRows]) =
     [\<lparr>date = ''a-01-15'', amount = 1, description = ''Unknown'', category = ''Uncategorized''\<rparr>,
      \<lparr>date = ''B-01-15'', amount = 2, description = ''Unknown'', category = ''Uncategorized''\<rparr>] \<and>
   \<not> lexicographic (transactions (run foldedCompare [Complete letterRows])) \<and>
   ''B-01-15'' < ''a-01-15''"
proof -
  have ev: "transactions (run foldedCompare [Complete letterRows]) =
     [\<lparr>date = ''a-01-15'', amount = 1, description = ''Unknown'', category = ''Uncategorized''\<rparr>,
      \<lparr>date = ''B-01-15'', amount = 2, description = ''Unknown'', category = ''Uncategorized''\<rparr>]"
    by (simp add: store_defs ingest_letterRows)
  have "\<not> lexicographic (transactions (run foldedCompare [Complete letterRows]))"
    unfolding ev by (simp add: lexicographic_def)
  moreover have "''B-01-15'' < ''a-01-15''"
    by simp
  ultimately show ?thesis
    using consistent_foldedCompare ev by blast
qed

text \<open>
  C5, amended. After an ingestion that completes, the records of the store are in
  non-decreasing order of their dates under the collation that \<open>localeCompare\<close> applies,
  whatever the store held before; and that order holds in every state of the store that
  mounting, ingesting and clearing can reach, from the empty store with nothing saved and
  from any store and saved copy that are in that order. Where every ingested row has a date
  of the form \<open>MM/DD/YYYY\<close>, an ingestion into a store of ISO dates completes, every date
  of the store is in ISO form, and, the collation comparing ISO dates as their code units
  do, the order is the lexicographic order of the date strings, in every reachable state.
\<close>

theorem store_sorted_by_date:
  assumes "consistent lc"
  shows "(\<forall>s. parseCSV lc rows prev = Inr s \<longrightarrow> byDate lc s) \<and>
         byDate lc (transactions (run lc events)) \<and>
         (byDate lc (transactions s0) \<and> (\<forall>p. stored s0 = Some p \<longrightarrow> byDate lc p) \<longrightarrow>
            byDate lc (transactions (runFrom lc s0 events))) \<and>
         ((\<forall>a b. isoForm a \<and> isoForm b \<longrightarrow> (lc a b \<le> 0 \<longleftrightarrow> a \<le> b)) \<longrightarrow>
            (list_all datedRow rows \<and> isoDates prev \<longrightarrow>
               (\<exists>s. parseCSV lc rows prev = Inr s \<and> isoDates s \<and> lexicographic s)) \<and>
            (list_all datedEvent events \<longrightarrow>
               isoDates (transactions (run lc events)) \<and>
               lexicographic (transactions (run lc events))) \<and>
            (list_all datedEvent events \<and>
             isoDates (transactions s0) \<and> (\<forall>p. stored s0 = Some p \<longrightarrow> isoDates p) \<and>
             byDate lc (transactions s0) \<and> (\<forall>p. stored s0 = Some p \<longrightarrow> byDate lc p) \<longrightarrow>
               isoDates (transactions (runFrom lc s0 events)) \<and>
               lexicographic (transactions (runFrom lc s0 events))))"
proof -
  have a: "\<forall>s. parseCSV lc rows prev = Inr s \<longrightarrow> byDate lc s"
    using sorted_mergeTransactions [OF assms]
    by (cases "newTransactions rows") (auto simp: parseCSV_def byDate_def)
  have b: "byDate lc (transactions (run lc events))"
    using run_invariant [OF assms] by blast
  have c: "byDate lc (transactions (runFrom lc s0 events))"
    if "byDate lc (transactions s0)" "\<forall>p. stored s0 = Some p \<longrightarrow> byDate lc p"
    using runFrom_sorted [OF assms that] by blast
  have d: "\<exists>s. parseCSV lc rows prev = Inr s \<and> isoDates s \<and> lexicographic s"
    if agree: "\<forall>a b. isoForm a \<and> isoForm b \<longrightarrow> (lc a b \<le> 0 \<longleftrightarrow> a \<le> b)"
      and rows: "list_all datedRow rows" and prev: "isoDates prev"
  proof -
    obtain new where new: "newTransactions rows = Inr new"
      using newTransactions_dated [OF rows] by blast
    then have p: "parseCSV lc rows prev = Inr (ingest lc rows prev)"
      by (simp add: ingest_def parseCSV_def)
    have iso: "isoDates (ingest lc rows prev)"
      using rows prev by (rule isoDates_ingest)
    have "byDate lc (ingest lc rows prev)"
      using a p by blast
    with agree iso have "lexicographic (ingest lc rows prev)"
      by (rule lexicographic_iso)
    with p iso show ?thesis by blast
  qed
  have e: "isoDates (transactions (runFrom lc s0 events)) \<and>
      lexicographic (transactions (runFrom lc s0 events))"
    if agree: "\<forall>a b. isoForm a \<and> isoForm b \<longrightarrow> (lc a b \<le> 0 \<longleftrightarrow> a \<le> b)"
      and events: "list_all datedEvent events"
      and iso: "isoDates (transactions s0)" "\<forall>p. stored s0 = Some p \<longrightarrow> isoDates p"
      and sorted: "byDate lc (transactions s0)" "\<forall>p. stored s0 = Some p \<longrightarrow> byDate lc p"
  proof -
    have i: "isoDates (transactions (runFrom lc s0 events))"
      using runFrom_iso [OF events iso] by blast
    have "byDate lc (transactions (runFrom lc s0 events))"
      using c sorted by blast
    with agree i have "lexicographic (transactions (runFrom lc s0 events))"
      by (rule lexicographic_iso)
    with i show ?thesis by blast
  qed
  have f: "isoDates (transactions (run lc events)) \<and> lexicographic (transactions (run lc events))"
    if agree: "\<forall>a b. isoForm a \<and> isoForm b \<longrightarrow> (lc a b \<le> 0 \<longleftrightarrow> a \<le> b)"
      and events: "list_all datedEvent events"
  proof -
    have i: "isoDates (transactions (run lc events))"
      using runFrom_iso [OF events, of initial lc]
      by (simp add: run_runFrom initial_def isoDates_def)
    with agree have "lexicographic (transactions (run lc events))"
      using b by (rule lexicographic_iso)
    with i show ?thesis by blast
  qed
  from a b c d e f show ?thesis by blast
qed

theorem store_sorted_by_date_witness:
  "transactions (run codeUnitCompare [Complete sampleRows, ClearData, Mount, Complete sampleRows]) =
     [\<lparr>date = ''2024-01-05'', amount = - 3, description = ''Unknown'', category = ''Uncategorized''\<rparr>,
      \<lparr>date = ''2024-01-15'', amount = 25 / 2, description = ''COFFEE'', category = ''Food''\<rparr>] \<and>
   lexicographic
     (transactions (run codeUnitCompare [Complete sampleRows, ClearData, Mount, Complete sampleRows]))"
proof -
  let ?events = "[Complete sampleRows, ClearData, Mount, Complete sampleRows]"
  have ev: "transactions (run codeUnitCompare ?events) =
     [\<lparr>date = ''2024-01-05'', amount = - 3, description = ''Unknown'', category = ''Uncategorized''\<rparr>,
      \<lparr>date = ''2024-01-15'', amount = 25 / 2, description = ''COFFEE'', category = ''Food''\<rparr>]"
    by (simp add: store_defs ingest_sampleRows clearData_def)
  have agree: "\<forall>a b. isoForm a \<and> isoForm b \<longrightarrow> (codeUnitCompare a b \<le> 0 \<longleftrightarrow> a \<le> b)"
    by (auto simp: codeUnitCompare_def)
  have dated: "list_all datedEvent ?events"
    by (simp add: sampleRows_def datedRow_def slashDate_def isDigit_def)
  have "lexicographic (transactions (run codeUnitCompare ?events))"
    using store_sorted_by_date [OF consistent_codeUnitCompare, where events = ?events] agree dated
    by blast
  with ev show ?thesis by simp
qed

lemma count_list_distinct: "distinct xs \<Longrightarrow> t \<in> set xs \<Longrightarrow> count_list xs t = 1"
  by (induction xs) (auto simp: count_list_0_iff)

text \<open>
  C10. Ingestion never loses a stored record: from every prior store and for every list of
  rows, each record of the store before the ingestion is a record of the store after it, with
  the same date, amount, description and category; where the prior store holds no record
  twice, each of its records is there exactly once afterwards, as before. A completed
  ingestion holds exactly the old records and the new ones, an ingestion that threw leaves
  the store as it was, and clearing is what empties it.
\<close>

theorem ingest_keeps_records:
  "set prev \<subseteq> set (ingest lc rows prev) \<and>
   (distinct prev \<longrightarrow>
      (\<forall>t \<in> set prev. count_list (ingest lc rows prev) t = count_list prev t)) \<and>
   (\<forall>new. newTransactions rows = Inr new \<longrightarrow> set (ingest lc rows prev) = set prev \<union> set new) \<and>
   (\<forall>e. newTransactions rows = Inl e \<longrightarrow> ingest lc rows prev = prev) \<and>
   clearData prev = []"
proof -
  have kept: "set prev \<subseteq> set (ingest lc rows prev)"
    by (cases "newTransactions rows")
       (simp_all add: ingest_def parseCSV_def set_mergeTransactions)
  have once: "count_list (ingest lc rows prev) t = count_list prev t"
    if "distinct prev" "t \<in> set prev" for t
  proof -
    have "distinct (ingest lc rows prev)"
      using that(1) by (cases "newTransactions rows")
        (simp_all add: ingest_def parseCSV_def distinct_mergeTransactions)
    moreover have "t \<in> set (ingest lc rows prev)"
      using kept that(2) by blast
    ultimately show ?thesis
      using that by (simp add: count_list_distinct)
  qed
  have completed: "\<forall>new. newTransactions rows = Inr new \<longrightarrow>
      set (ingest lc rows prev) = set prev \<union> set new"
    by (simp add: ingest_def parseCSV_def set_mergeTransactions)
  have thrown: "\<forall>e. newTransactions rows = Inl e \<longrightarrow> ingest lc rows prev = prev"
    by (simp add: ingest_def parseCSV_def)
  have "clearData prev = []"
    by (simp add: clearData_def)
  with kept once completed thrown show ?thesis by blast
qed

theorem ingest_keeps_records_witness:
  "\<lparr>date = ''2023-12-31'', amount = 40, description = ''RENT'', category = ''Home''\<rparr>
     \<in> set (ingest codeUnitCompare sampleRows
          [\<lparr>date = ''2023-12-31'', amount = 40, description = ''RENT'', category = ''Home''\<rparr>])"
  using ingest_keeps_records [of
      "[\<lparr>date = ''2023-12-31'', amount = 40, description = ''RENT'', category = ''Home''\<rparr>]"
      codeUnitCompare sampleRows]
  by simp

section \<open>Properties of row normalisation\<close>

lemma split_not_Nil: "split sep s \<noteq> []"
  by (induction s) (auto split: list.splits)

lemma length_split: "length (split sep s) = Suc (count_list s sep)"
  by (induction s) (auto split: list.splits simp: split_not_Nil)

lemma second_part: "at_index (split sep s) (Suc 0) = None \<longleftrightarrow> sep \<notin> set s"
  using count_list_0_iff [of s sep] by (auto simp: at_index_def length_split)

lemma first_part: "at_index (split sep s) 0 \<noteq> None"
  by (simp add: at_index_def length_split)

lemma normalizeRow_throws:
  "normalizeRow row = Inl e \<longleftrightarrow>
     e = TypeError \<and>
     (\<exists>d a. row ''Transaction Date'' = Some d \<and> row ''Amount'' = Some a \<and> d \<noteq> [] \<and> a \<noteq> [] \<and>
            CHR ''/'' \<notin> set d)"
proof (cases "row ''Transaction Date''")
  case None
  then show ?thesis by (simp add: normalizeRow_def)
next
  case d: (Some d)
  show ?thesis
  proof (cases "row ''Amount''")
    case None
    with d show ?thesis by (simp add: normalizeRow_def)
  next
    case a: (Some a)
    obtain m where m: "at_index (split CHR ''/'' d) 0 = Some m"
      using first_part [of "CHR ''/''" d] by auto
    show ?thesis
    proof (cases "at_index (split CHR ''/'' d) 1")
      case None
      then have "CHR ''/'' \<notin> set d" by (simp add: second_part)
      with None d a m show ?thesis by (auto simp: normalizeRow_def Let_def)
    next
      case (Some day)
      then have "CHR ''/'' \<in> set d" using second_part [of "CHR ''/''" d] by auto
      with Some d a m show ?thesis
        by (auto simp: normalizeRow_def Let_def split: option.splits)
    qed
  qed
qed

lemma normalizeRow_skips:
  "row ''Transaction Date'' = None \<or> row ''Transaction Date'' = Some [] \<or>
   row ''Amount'' = None \<or> row ''Amount'' = Some [] \<Longrightarrow> normalizeRow row = Inr None"
  by (auto simp: normalizeRow_def split: option.splits)

lemma normalizeRow_not_a_number:
  "row ''Transaction Date'' = Some d \<Longrightarrow> CHR ''/'' \<in> set d \<Longrightarrow> row ''Amount'' = Some a \<Longrightarrow>
   parseFloat a = None \<Longrightarrow> normalizeRow row = Inr None"
proof -
  assume d: "row ''Transaction Date'' = Some d" and s: "CHR ''/'' \<in> set d"
    and a: "row ''Amount'' = Some a" and p: "parseFloat a = None"
  obtain m where m: "at_index (split CHR ''/'' d) 0 = Some m"
    using first_part [of "CHR ''/''" d] by auto
  obtain day where day: "at_index (split CHR ''/'' d) 1 = Some day"
    using second_part [of "CHR ''/''" d] s by auto
  show ?thesis
    using d a p m day by (simp add: normalizeRow_def Let_def)
qed

section \<open>Properties of the chart data\<close>

lemma fromSet_foldl:
  "set (foldl (\<lambda>acc x. if x \<in> set acc then acc else acc @ [x]) acc xs) = set acc \<union> set xs \<and>
   (distinct acc \<longrightarrow> distinct (foldl (\<lambda>acc x. if x \<in> set acc then acc else acc @ [x]) acc xs))"
  by (induction xs arbitrary: acc) auto

lemma set_fromSet: "set (fromSet xs) = set xs"
  using fromSet_foldl [of "[]" xs] by (simp add: fromSet_def)

lemma distinct_fromSet: "distinct (fromSet xs)"
  using fromSet_foldl [of "[]" xs] by (simp add: fromSet_def)

lemma codeUnitCompare_le: "codeUnitCompare a b \<le> 0 \<longleftrightarrow> a \<le> b"
  by (auto simp: codeUnitCompare_def)

lemma set_allDates: "set (allDates ts) = date ` set ts"
  by (simp add: allDates_def set_sortBy set_fromSet)

lemma distinct_allDates: "distinct (allDates ts)"
  by (simp add: allDates_def distinct_sortBy distinct_fromSet)

lemma sorted_allDates: "sorted (allDates ts)"
  using sorted_sortBy [OF consistent_codeUnitCompare, of "fromSet (map date ts)"]
  by (simp add: allDates_def codeUnitCompare_le)

lemma orZero_simps: "orZero None = 0" "orZero (Some x) = x"
  by (simp_all add: orZero_def)

lemma dailyMap_snoc:
  "dailyMap (ts @ [t]) = (dailyMap ts)(date t \<mapsto> orZero (dailyMap ts (date t)) + amount t)"
  by (simp add: dailyMap_def)

lemma dayTotal_absent: "d \<notin> date ` set ts \<Longrightarrow> dayTotal ts d = 0"
proof -
  assume "d \<notin> date ` set ts"
  then have "filter (\<lambda>t. date t = d) ts = []"
    by (auto simp: filter_empty_conv)
  then show ?thesis by (simp add: dayTotal_def)
qed

lemma dayTotal_snoc: "dayTotal (ts @ [t]) d = dayTotal ts d + (if date t = d then amount t else 0)"
  by (simp add: dayTotal_def)

lemma dailyMap_eq:
  "dailyMap ts d = (if d \<in> date ` set ts then Some (dayTotal ts d) else None)"
proof (induction ts rule: rev_induct)
  case Nil
  then show ?case by (simp add: dailyMap_def)
next
  case (snoc t ts)
  then show ?case
    by (auto simp: dailyMap_snoc orZero_simps dayTotal_snoc dayTotal_absent)
qed

lemma orZero_dailyMap: "orZero (dailyMap ts d) = dayTotal ts d"
proof (cases "d \<in> date ` set ts")
  case True
  then show ?thesis by (simp add: dailyMap_eq orZero_simps)
next
  case False
  then show ?thesis by (simp add: dailyMap_eq orZero_simps dayTotal_absent)
qed

lemma length_accumulate: "length (accumulate m c ds) = length ds"
  by (induction ds arbitrary: c) (simp_all add: Let_def)

lemma accumulate_nth:
  "i < length ds \<Longrightarrow>
   accumulate m c ds ! i = c + sum_list (map (\<lambda>d. orZero (m d)) (take (Suc i) ds))"
proof (induction ds arbitrary: c i)
  case Nil
  then show ?case by simp
next
  case (Cons d ds)
  show ?case
  proof (cases i)
    case 0
    then show ?thesis by (simp add: Let_def)
  next
    case (Suc j)
    with Cons.prems have "j < length ds" by simp
    from Cons.IH [OF this, of "c + orZero (m d)"] Suc show ?thesis
      by (simp add: Let_def add.assoc)
  qed
qed

lemma sum_filter_disjoint:
  "(\<And>t. t \<in> set ts \<Longrightarrow> \<not> (P t \<and> Q t)) \<Longrightarrow>
   sum_list (map f (filter (\<lambda>t. P t \<or> Q t) ts))
     = sum_list (map f (filter P ts)) + sum_list (map f (filter Q ts) :: real list)"
  by (induction ts) auto

lemma sum_dayTotal:
  "distinct ks \<Longrightarrow>
   sum_list (map (dayTotal ts) ks) = sum_list (map amount (filter (\<lambda>t. date t \<in> set ks) ts))"
proof (induction ks)
  case Nil
  then show ?case by simp
next
  case (Cons k ks)
  have "sum_list (map amount (filter (\<lambda>t. date t = k \<or> date t \<in> set ks) ts))
      = dayTotal ts k + sum_list (map amount (filter (\<lambda>t. date t \<in> set ks) ts))"
    unfolding dayTotal_def using Cons.prems by (intro sum_filter_disjoint) auto
  with Cons show ?case by simp
qed

lemma take_Suc_sorted:
  fixes ds :: "'a::linorder list"
  assumes "sorted_wrt (<) ds" "i < length ds"
  shows "set (take (Suc i) ds) = {d \<in> set ds. d \<le> ds ! i}"
proof (intro set_eqI iffI)
  fix d assume "d \<in> set (take (Suc i) ds)"
  then obtain j where j: "j < Suc i" "j < length ds" "d = ds ! j"
    by (auto simp: in_set_conv_nth)
  then have "ds ! j \<le> ds ! i"
    using assms by (cases "j = i") (auto simp: sorted_wrt_iff_nth_less less_imp_le)
  with j show "d \<in> {d \<in> set ds. d \<le> ds ! i}" by auto
next
  fix d assume "d \<in> {d \<in> set ds. d \<le> ds ! i}"
  then obtain j where j: "j < length ds" "d = ds ! j" "ds ! j \<le> ds ! i"
    by (auto simp: in_set_conv_nth)
  have "j \<le> i"
  proof (rule ccontr)
    assume "\<not> j \<le> i"
    then have "i < j" by simp
    with assms(1) j(1) have "ds ! i < ds ! j" by (simp add: sorted_wrt_iff_nth_less)
    with j(3) show False by simp
  qed
  with j assms(2) show "d \<in> set (take (Suc i) ds)"
    by (auto simp: in_set_conv_nth intro!: exI [of _ j])
qed

lemma cumulativeData_nth:
  assumes "i < length (allDates ts)"
  shows "cumulativeData ts ! i
           = sum_list (map amount (filter (\<lambda>t. date t \<le> allDates ts ! i) ts))"
proof -
  let ?ds = "allDates ts"
  have strict: "sorted_wrt (<) ?ds"
    using sorted_allDates distinct_allDates by (simp add: strict_sorted_iff)
  have "cumulativeData ts ! i = sum_list (map (dayTotal ts) (take (Suc i) ?ds))"
    using accumulate_nth [OF assms, of "dailyMap ts" 0]
    by (simp add: cumulativeData_def orZero_dailyMap)
  also have "\<dots> = sum_list (map amount (filter (\<lambda>t. date t \<in> set (take (Suc i) ?ds)) ts))"
    by (rule sum_dayTotal) (simp add: distinct_allDates)
  also have "filter (\<lambda>t. date t \<in> set (take (Suc i) ?ds)) ts = filter (\<lambda>t. date t \<le> ?ds ! i) ts"
    by (rule filter_cong [OF refl]) (simp add: take_Suc_sorted [OF strict assms] set_allDates)
  finally show ?thesis .
qed

section \<open>The cumulative series\<close>

lemma allDates_threeDays: "allDates threeDays = [''2024-01-01'', ''2024-01-02'', ''2024-01-03'']"
  by (simp add: threeDays_def allDates_def fromSet_def sortBy_def codeUnitCompare_def)

text \<open>
  C2. The cumulative series runs along the x-axis, which holds each date of the
  transactions once, sorted as strings. Its value at a date is the sum of the amounts of all
  transactions dated on or before it, and each value is the one before plus the total of its
  own day. With only the cumulative view enabled the chart holds exactly this series, under
  the label Cumulative. For transactions of 10, -3 and 5 on 2024-01-01, 2024-01-02 and
  2024-01-03, whatever their descriptions and categories, the series is 10, 7, 12.
\<close>

theorem cumulative_series:
  "length (cumulativeData ts) = length (allDates ts) \<and>
   sorted (allDates ts) \<and> distinct (allDates ts) \<and> set (allDates ts) = date ` set ts \<and>
   (\<forall>i < length (allDates ts).
      cumulativeData ts ! i
        = sum_list (map amount (filter (\<lambda>t. date t \<le> allDates ts ! i) ts))) \<and>
   (\<forall>i. Suc i < length (allDates ts) \<longrightarrow>
      cumulativeData ts ! Suc i = cumulativeData ts ! i + dayTotal ts (allDates ts ! Suc i)) \<and>
   (ts \<noteq> [] \<longrightarrow>
      getChartData utcOffset ts {Cumulative}
        = Inr \<lparr>labels = allDates ts, datasets = [cumulativeDataset ts]\<rparr>) \<and>
   label (cumulativeDataset ts) = ''Cumulative'' \<and>
   data (cumulativeDataset ts) = cumulativeData ts \<and>
   cumulativeData
     [\<lparr>date = ''2024-01-01'', amount = 10, description = d1, category = c1\<rparr>,
      \<lparr>date = ''2024-01-02'', amount = - 3, description = d2, category = c2\<rparr>,
      \<lparr>date = ''2024-01-03'', amount = 5, description = d3, category = c3\<rparr>] = [10, 7, 12]"
proof -
  have len: "length (cumulativeData ts) = length (allDates ts)"
    by (simp add: cumulativeData_def length_accumulate)
  have upto: "\<forall>i < length (allDates ts).
      cumulativeData ts ! i
        = sum_list (map amount (filter (\<lambda>t. date t \<le> allDates ts ! i) ts))"
    by (simp add: cumulativeData_nth)
  have carried: "\<forall>i. Suc i < length (allDates ts) \<longrightarrow>
      cumulativeData ts ! Suc i = cumulativeData ts ! i + dayTotal ts (allDates ts ! Suc i)"
  proof (intro allI impI)
    fix i assume i: "Suc i < length (allDates ts)"
    then have "take (Suc (Suc i)) (allDates ts) = take (Suc i) (allDates ts) @ [allDates ts ! Suc i]"
      by (simp add: take_Suc_conv_app_nth)
    then show "cumulativeData ts ! Suc i
        = cumulativeData ts ! i + dayTotal ts (allDates ts ! Suc i)"
      using accumulate_nth [of "Suc i" "allDates ts" "dailyMap ts" 0]
        accumulate_nth [of i "allDates ts" "dailyMap ts" 0] i
      by (simp add: cumulativeData_def orZero_dailyMap)
  qed
  have chart: "ts \<noteq> [] \<longrightarrow>
      getChartData utcOffset ts {Cumulative}
        = Inr \<lparr>labels = allDates ts, datasets = [cumulativeDataset ts]\<rparr>"
    by (simp add: getChartData_def)
  have fields: "label (cumulativeDataset ts) = ''Cumulative''"
      "data (cumulativeDataset ts) = cumulativeData ts"
    by (simp_all add: cumulativeDataset_def)
  have example: "cumulativeData
     [\<lparr>date = ''2024-01-01'', amount = 10, description = d1, category = c1\<rparr>,
      \<lparr>date = ''2024-01-02'', amount = - 3, description = d2, category = c2\<rparr>,
      \<lparr>date = ''2024-01-03'', amount = 5, description = d3, category = c3\<rparr>] = [10, 7, 12]"
    by (simp add: cumulativeData_def allDates_def fromSet_def sortBy_def codeUnitCompare_def
          dailyMap_def orZero_def)
  from len sorted_allDates distinct_allDates set_allDates upto carried chart fields example
  show ?thesis by blast
qed

theorem cumulative_series_witness:
  "allDates threeDays ! 1 = ''2024-01-02'' \<and> cumulativeData threeDays ! 1 = 7"
proof -
  have "1 < length (allDates threeDays)"
    by (simp add: allDates_threeDays)
  with cumulative_series [where ts = threeDays]
  have "cumulativeData threeDays ! 1
      = sum_list (map amount (filter (\<lambda>t. date t \<le> allDates threeDays ! 1) threeDays))"
    by blast
  also have "\<dots> = 7"
    by (simp add: allDates_threeDays) (simp add: threeDays_def)
  finally show ?thesis by (simp add: allDates_threeDays)
qed

section \<open>Rows with a malformed date\<close>

text \<open>
  C3. What the code does with the rows the claim speaks of. A row whose date has no slash
  makes \<open>day.padStart\<close> throw a TypeError, which nothing catches: the callback ends there and
  no row of the file reaches the store, the well-formed ones included. A row whose date has
  two parts is stored, with the year \<open>undefined\<close>; one with four parts is stored from its first
  three. Only the amount is checked: a row whose amount is not a number is skipped when its
  date has a slash, and throws like any other when it has none.
\<close>

theorem malformed_date_rows:
  "normalizeRow [''Transaction Date'' \<mapsto> ''2024-01-15'', ''Amount'' \<mapsto> ''-12.50''] = Inl TypeError \<and>
   parseCSV lc (sampleRows @ [[''Transaction Date'' \<mapsto> ''2024-01-15'', ''Amount'' \<mapsto> ''-12.50'']]) prev
     = Inl TypeError \<and>
   ingest lc (sampleRows @ [[''Transaction Date'' \<mapsto> ''2024-01-15'', ''Amount'' \<mapsto> ''-12.50'']]) prev
     = prev \<and>
   normalizeRow [''Transaction Date'' \<mapsto> ''01/15'', ''Amount'' \<mapsto> ''-12.50'']
     = Inr (Some \<lparr>date = ''undefined-01-15'', amount = 25 / 2, description = ''Unknown'',
                    category = ''Uncategorized''\<rparr>) \<and>
   normalizeRow [''Transaction Date'' \<mapsto> ''01/15/2024/7'', ''Amount'' \<mapsto> ''-12.50'']
     = Inr (Some \<lparr>date = ''2024-01-15'', amount = 25 / 2, description = ''Unknown'',
                    category = ''Uncategorized''\<rparr>) \<and>
   normalizeRow [''Transaction Date'' \<mapsto> ''2024-01-15'', ''Amount'' \<mapsto> ''abc''] = Inl TypeError \<and>
   normalizeRow [''Transaction Date'' \<mapsto> ''01/15/2024'', ''Amount'' \<mapsto> ''abc''] = Inr None"
proof -
  have thrown: "normalizeRow [''Transaction Date'' \<mapsto> ''2024-01-15'', ''Amount'' \<mapsto> ''-12.50'']
      = Inl TypeError"
    by (simp add: normalizeRow_def at_index_def)
  have whole: "parseCSV lc
      (sampleRows @ [[''Transaction Date'' \<mapsto> ''2024-01-15'', ''Amount'' \<mapsto> ''-12.50'']]) prev
      = Inl TypeError"
    by (simp add: sampleRows_def runtime_defs ingest_defs)
  then have store: "ingest lc
      (sampleRows @ [[''Transaction Date'' \<mapsto> ''2024-01-15'', ''Amount'' \<mapsto> ''-12.50'']]) prev
      = prev"
    by (simp add: ingest_def)
  have two: "normalizeRow [''Transaction Date'' \<mapsto> ''01/15'', ''Amount'' \<mapsto> ''-12.50'']
     = Inr (Some \<lparr>date = ''undefined-01-15'', amount = 25 / 2, description = ''Unknown'',
                    category = ''Uncategorized''\<rparr>)"
    by (simp add: runtime_defs ingest_defs)
  have four: "normalizeRow [''Transaction Date'' \<mapsto> ''01/15/2024/7'', ''Amount'' \<mapsto> ''-12.50'']
     = Inr (Some \<lparr>date = ''2024-01-15'', amount = 25 / 2, description = ''Unknown'',
                    category = ''Uncategorized''\<rparr>)"
    by (simp add: runtime_defs ingest_defs)
  have nan_thrown: "normalizeRow [''Transaction Date'' \<mapsto> ''2024-01-15'', ''Amount'' \<mapsto> ''abc'']
      = Inl TypeError"
    by (simp add: normalizeRow_def at_index_def)
  have nan_skipped: "normalizeRow [''Transaction Date'' \<mapsto> ''01/15/2024'', ''Amount'' \<mapsto> ''abc'']
      = Inr None"
    by (simp add: runtime_defs ingest_defs)
  from thrown whole store two four nan_thrown nan_skipped show ?thesis by blast
qed

section \<open>The weekly view\<close>

text \<open>
  A date-only string is read as a midnight UTC. Wherever local time is behind UTC, by less
  than a day, that instant falls on the day before, and \<open>getDay\<close> returns that day's weekday.
\<close>

lemma div_just_below:
  fixes n K r :: int
  assumes "- K < r" "r < 0"
  shows "(n * K + r) div K = n - 1"
proof (rule int_div_pos_eq [where r = "K + r"])
  show "n * K + r = K * (n - 1) + (K + r)" by (simp add: algebra_simps)
  show "0 \<le> K + r" using assms by simp
  show "K + r < K" using assms by simp
qed

lemma weekday_before:
  fixes n :: int
  shows "(n - 1 + 4) mod 7 = ((n + 4) mod 7 + 6) mod 7"
  by presburger

lemma dateParse_midnight: "dateParse s = Some t \<Longrightarrow> \<exists>n. t = n * msPerDay"
  by (auto simp: dateParse_def Let_def split: if_splits)

lemma getDay_behind_utc:
  assumes "dateParse s = Some t" "- 1440 < utcOffset" "utcOffset < 0"
  shows "getDay utcOffset t = (getDay 0 t + 6) mod 7"
proof -
  obtain n where t: "t = n * msPerDay"
    using dateParse_midnight [OF assms(1)] by blast
  have "- msPerDay < utcOffset * 60000" "utcOffset * 60000 < 0"
    using assms(2,3) by (simp_all add: msPerDay_def)
  then have "(n * msPerDay + utcOffset * 60000) div msPerDay = n - 1"
    by (rule div_just_below)
  moreover have "n * msPerDay div msPerDay = n"
    by (simp add: msPerDay_def)
  ultimately show ?thesis
    by (simp only: getDay_def localTime_def t weekday_before mult_zero_left add_0_right)
qed

lemma dateParse_sample:
  "dateParse ''2024-01-01'' = Some 1704067200000"
  "dateParse ''2024-01-03'' = Some 1704240000000"
  by code_simp+

lemma monday_west:
  "getDay (- 300) 1704067200000 = 0"
  "getDate (- 300) 1704067200000 = 31"
  "setDate (- 300) 1704067200000 25 = 1703548800000"
  by code_simp+

lemma wednesday_west:
  "getDay (- 300) 1704240000000 = 2"
  "getDate (- 300) 1704240000000 = 2"
  "setDate (- 300) 1704240000000 1 = 1704153600000"
  by code_simp+

lemma monday_utc:
  "getDay 0 1704067200000 = 1"
  "getDate 0 1704067200000 = 1"
  "setDate 0 1704067200000 1 = 1704067200000"
  by code_simp+

lemma wednesday_utc:
  "getDay 0 1704240000000 = 3"
  "getDate 0 1704240000000 = 3"
  "setDate 0 1704240000000 1 = 1704067200000"
  by code_simp+

lemma toISOString_sample:
  "toISOString 1703548800000 = ''2023-12-26T00:00:00.000Z''"
  "toISOString 1704153600000 = ''2024-01-02T00:00:00.000Z''"
  "toISOString 1704067200000 = ''2024-01-01T00:00:00.000Z''"
  by code_simp+

lemma weekKey_west:
  "weekKey (- 300) ''2024-01-01'' = Inr ''2023-12-26''"
  "weekKey (- 300) ''2024-01-03'' = Inr ''2024-01-02''"
  by (simp_all add: weekKey_def dateParse_sample monday_west wednesday_west toISOString_sample)

lemma weekKey_utc:
  "weekKey 0 ''2024-01-01'' = Inr ''2024-01-01''"
  "weekKey 0 ''2024-01-03'' = Inr ''2024-01-01''"
  by (simp_all add: weekKey_def dateParse_sample monday_utc wednesday_utc toISOString_sample)

lemma allDates_mondayWednesday: "allDates mondayWednesday = [''2024-01-01'', ''2024-01-03'']"
  by (simp add: mondayWednesday_def allDates_def fromSet_def sortBy_def codeUnitCompare_def)

lemma weeklyData_west: "weeklyData (- 300) mondayWednesday = Inr [20, 5]"
  by (simp add: weeklyData_def mondayWednesday_def weekKey_west orZero_def
        allDates_mondayWednesday [unfolded mondayWednesday_def])

lemma weeklyData_utc: "weeklyData 0 mondayWednesday = Inr [25, 25]"
  by (simp add: weeklyData_def mondayWednesday_def weekKey_utc orZero_def
        allDates_mondayWednesday [unfolded mondayWednesday_def])

text \<open>
  C4. The weekly view at the claim's own example, a Monday transaction of 20 and a Wednesday
  transaction of 5 in the same week (2024-01-01 and 2024-01-03). The date string is read as
  midnight UTC, but the day of the week and of the month are taken in local time. Five hours
  behind UTC, that local time is still Sunday evening for the Monday, so its week is keyed
  2023-12-26, the Wednesday's 2024-01-02, and the plotted values are 20 and 5. At UTC both
  dates have the key 2024-01-01 and both plotted values are 25.
\<close>

theorem weekly_view_behind_utc:
  "weekKey (- 300) ''2024-01-01'' = Inr ''2023-12-26'' \<and>
   weekKey (- 300) ''2024-01-03'' = Inr ''2024-01-02'' \<and>
   getChartData (- 300) mondayWednesday {Weekly}
     = Inr \<lparr>labels = [''2024-01-01'', ''2024-01-03''], datasets = [weeklyDataset [20, 5]]\<rparr> \<and>
   getChartData 0 mondayWednesday {Weekly}
     = Inr \<lparr>labels = [''2024-01-01'', ''2024-01-03''], datasets = [weeklyDataset [25, 25]]\<rparr>"
proof -
  have nonempty: "mondayWednesday \<noteq> []"
    by (simp add: mondayWednesday_def)
  have west: "getChartData (- 300) mondayWednesday {Weekly}
     = Inr \<lparr>labels = [''2024-01-01'', ''2024-01-03''], datasets = [weeklyDataset [20, 5]]\<rparr>"
    using nonempty by (simp add: getChartData_def weeklyData_west allDates_mondayWednesday)
  have utc: "getChartData 0 mondayWednesday {Weekly}
     = Inr \<lparr>labels = [''2024-01-01'', ''2024-01-03''], datasets = [weeklyDataset [25, 25]]\<rparr>"
    using nonempty by (simp add: getChartData_def weeklyData_utc allDates_mondayWednesday)
  from weekKey_west west utc show ?thesis by blast
qed

section \<open>The tooltip\<close>

lemma shownDescription_long:
  "length (description t) > 35 \<Longrightarrow> shownDescription t = take 32 (description t) @ ''...''"
  by (simp add: shownDescription_def substring0_def)

lemma shownDescription_short:
  "length (description t) \<le> 35 \<Longrightarrow> shownDescription t = description t"
  by (simp add: shownDescription_def)

lemma length_shownDescription: "length (shownDescription t) = min 35 (length (description t))"
  by (simp add: shownDescription_def substring0_def)

lemma transactionLine_starts:
  "\<exists>rest. transactionLine t = ''    '' @ shownDescription t @ rest"
  by (simp add: transactionLine_def padRight_def Let_def)

lemma pushTo_members:
  "(\<Union>e \<in> set (pushTo k t m). set (snd e)) = insert t (\<Union>e \<in> set m. set (snd e))"
proof (induction m)
  case Nil
  then show ?case by simp
next
  case (Cons e m)
  obtain k' txns where e: "e = (k', txns)" by (cases e)
  show ?case
  proof (cases "k = k'")
    case True
    then show ?thesis by (auto simp: e)
  next
    case False
    then show ?thesis using Cons.IH by (simp add: e)
  qed
qed

lemma categoryMap_members:
  "(\<Union>e \<in> set (foldl (\<lambda>m t. pushTo (category t) t m) m0 xs). set (snd e))
     = (\<Union>e \<in> set m0. set (snd e)) \<union> set xs"
  by (induction xs arbitrary: m0) (auto simp: pushTo_members)

lemma transactionLine_in_categoryLines:
  "t \<in> set (snd e) \<Longrightarrow> transactionLine t \<in> set (categoryLines e)"
  by (cases e) (simp add: categoryLines_def Let_def)

lemma tooltip_has_line:
  assumes "t \<in> set ts" "datasetLabel \<noteq> ''Total (Daily)''"
  shows "transactionLine t \<in> set (tooltipLabel lc ts (date t) v datasetLabel)"
proof -
  let ?day = "filter (\<lambda>u. date u = date t) ts"
  let ?m = "foldl (\<lambda>m t. pushTo (category t) t m) [] ?day"
  have "t \<in> set ?day" using assms(1) by simp
  then have "t \<in> (\<Union>e \<in> set ?m. set (snd e))"
    using categoryMap_members [of "[]" ?day] by simp
  then obtain e where e: "e \<in> set ?m" "t \<in> set (snd e)" by blast
  then have nonempty: "length ?m > 0" by (cases ?m) auto
  from e have "e \<in> set (sortBy (\<lambda>a b. lc (fst a) (fst b)) ?m)"
    by (simp add: set_sortBy)
  with e(2) have "transactionLine t \<in> set (concat (map categoryLines (sortBy (\<lambda>a b. lc (fst a) (fst b)) ?m)))"
    using transactionLine_in_categoryLines by fastforce
  with nonempty assms(2) show ?thesis
    by (simp add: tooltipLabel_def Let_def)
qed

text \<open>
  C6. A transaction line of the tooltip shows the description after four spaces. A
  description of more than 35 characters is shown as its first 32 characters followed by
  three dots, 35 characters in all; so a description of 50 characters is shown as 32
  characters and the three dots. A description of 35 characters or fewer is shown as it is.
  Every transaction of the hovered date has its line in the tooltip of every dataset but the
  one labelled Total (Daily).
\<close>

theorem tooltip_description_truncated:
  "(length (description t) > 35 \<longrightarrow>
      shownDescription t = take 32 (description t) @ ''...'' \<and> length (shownDescription t) = 35) \<and>
   (length (description t) = 50 \<longrightarrow> shownDescription t = take 32 (description t) @ ''...'') \<and>
   (length (description t) \<le> 35 \<longrightarrow> shownDescription t = description t) \<and>
   (\<exists>rest. transactionLine t = ''    '' @ shownDescription t @ rest) \<and>
   (t \<in> set ts \<and> datasetLabel \<noteq> ''Total (Daily)'' \<longrightarrow>
      transactionLine t \<in> set (tooltipLabel lc ts (date t) v datasetLabel))"
proof -
  have long: "length (description t) > 35 \<longrightarrow>
      shownDescription t = take 32 (description t) @ ''...'' \<and> length (shownDescription t) = 35"
    by (simp add: shownDescription_long length_shownDescription)
  have fifty: "length (description t) = 50 \<longrightarrow> shownDescription t = take 32 (description t) @ ''...''"
    by (simp add: shownDescription_long)
  have short: "length (description t) \<le> 35 \<longrightarrow> shownDescription t = description t"
    by (simp add: shownDescription_short)
  have shown: "t \<in> set ts \<and> datasetLabel \<noteq> ''Total (Daily)'' \<longrightarrow>
      transactionLine t \<in> set (tooltipLabel lc ts (date t) v datasetLabel)"
    using tooltip_has_line by blast
  from long fifty short transactionLine_starts shown show ?thesis by blast
qed

theorem tooltip_description_truncated_witness:
  "shownDescription longTransaction = ''01234567890123456789012345678901...'' \<and>
   transactionLine longTransaction
     \<in> set (tooltipLabel codeUnitCompare [longTransaction] ''2024-01-02'' 7 ''Cumulative'')"
proof -
  have len: "length (description longTransaction) = 50"
    by (simp add: longTransaction_def)
  have member: "longTransaction \<in> set [longTransaction] \<and> ''Cumulative'' \<noteq> ''Total (Daily)''"
    by simp
  have day: "date longTransaction = ''2024-01-02''"
    by (simp add: longTransaction_def)
  from tooltip_description_truncated
    [where t = longTransaction and ts = "[longTransaction]" and datasetLabel = "''Cumulative''"
       and lc = codeUnitCompare and v = 7]
    len member
  have "shownDescription longTransaction = take 32 (description longTransaction) @ ''...''"
    and "transactionLine longTransaction
      \<in> set (tooltipLabel codeUnitCompare [longTransaction] (date longTransaction) 7 ''Cumulative'')"
    by blast+
  then show ?thesis
    by (simp add: day) (simp add: longTransaction_def)
qed

section \<open>Category colours\<close>






lemma colors_truthy: "map_of colors c = Some v \<Longrightarrow> v \<noteq> []"
  by (auto simp: colors_def split: if_splits)

lemma getCategoryColor_known:
  "map_of colors c = Some v \<Longrightarrow> getCategoryColor c = Str v"
  using colors_truthy [of c v] by (simp add: getCategoryColor_def getProperty_def)

lemma getCategoryColor_inherited:
  "map_of colors c = None \<Longrightarrow> c \<in> set objectPrototype \<Longrightarrow> getCategoryColor c = Inherited c"
  by (simp add: getCategoryColor_def getProperty_def)




section \<open>The empty chart\<close>

text \<open>
  C8. With no transactions, or with no view enabled, the chart data has no labels and
  exactly one dataset: the placeholder labelled No data, whose data is empty.
\<close>

theorem empty_state_placeholder:
  "ts = [] \<or> enabledViews = {} \<Longrightarrow>
   getChartData utcOffset ts enabledViews = Inr \<lparr>labels = [], datasets = [noData]\<rparr> \<and>
   label noData = ''No data'' \<and> data noData = []"
  by (auto simp: getChartData_def noData_def)

theorem empty_state_placeholder_witness:
  "getChartData 0 [] {Cumulative, Weekly} = Inr \<lparr>labels = [], datasets = [noData]\<rparr> \<and>
   getChartData 0 threeDays {} = Inr \<lparr>labels = [], datasets = [noData]\<rparr>"
  using empty_state_placeholder [of "[]" "{Cumulative, Weekly}" 0]
    empty_state_placeholder [of threeDays "{}" 0]
  by simp

section \<open>Dropped files\<close>

lemma endsWith_suffix: "endsWith str s \<longleftrightarrow> suffix s str"
proof
  assume "endsWith str s"
  then have "str = take (length str - length s) str @ s"
    by (metis append_take_drop_id endsWith_def)
  then show "suffix s str" by (rule suffixI)
next
  assume "suffix s str"
  then obtain zs where "str = zs @ s" by (auto simp: suffix_def)
  then show "endsWith str s" by (simp add: endsWith_def)
qed

lemma handleDrop_member:
  "f \<in> set (handleDrop files) \<longleftrightarrow>
     f \<in> set files \<and> (suffix ''.csv'' (name f) \<or> suffix ''.CSV'' (name f))"
  by (auto simp: handleDrop_def endsWith_suffix)


text \<open>
  C9, as the claim states it, fails: a file named \<open>statement.Csv\<close> ends in \<open>.csv\<close> when case
  is ignored, and it is not passed on.
\<close>

theorem mixed_case_extension_ignored:
  "endsWithIgnoringCase ''statement.Csv'' ''.csv'' \<and>
   handleDrop [\<lparr>name = ''statement.Csv'', contents = sampleRows\<rparr>] = []"
proof -
  have "endsWithIgnoringCase ''statement.Csv'' ''.csv''"
    by code_simp
  moreover have "handleDrop [\<lparr>name = ''statement.Csv'', contents = sampleRows\<rparr>] = []"
    by (simp add: handleDrop_def endsWith_def)
  ultimately show ?thesis by blast
qed

text \<open>
  C9, amended. A dropped file is passed on to the ingestion exactly when its name ends in
  \<open>.csv\<close> or in \<open>.CSV\<close>, spelled so; the files passed on keep their order, and every other
  file is left out without an error.
\<close>

theorem handleDrop_accepts:
  "(f \<in> set (handleDrop files) \<longleftrightarrow>
      f \<in> set files \<and> (suffix ''.csv'' (name f) \<or> suffix ''.CSV'' (name f))) \<and>
   handleDrop files = filter (\<lambda>f. suffix ''.csv'' (name f) \<or> suffix ''.CSV'' (name f)) files"
  by (simp add: handleDrop_member) (simp add: handleDrop_def endsWith_suffix)

theorem handleDrop_accepts_witness:
  "handleDrop droppedFiles
     = [\<lparr>name = ''january.csv'', contents = sampleRows\<rparr>, \<lparr>name = ''FEBRUARY.CSV'', contents = []\<rparr>]"
proof -
  have "handleDrop droppedFiles
      = filter (\<lambda>f. suffix ''.csv'' (name f) \<or> suffix ''.CSV'' (name f)) droppedFiles"
    using handleDrop_accepts [of _ droppedFiles] by blast
  also have "\<dots> = filter (\<lambda>f. endsWith (name f) ''.csv'' \<or> endsWith (name f) ''.CSV'') droppedFiles"
    by (simp add: endsWith_suffix)
  also have "\<dots> = [\<lparr>name = ''january.csv'', contents = sampleRows\<rparr>,
                   \<lparr>name = ''FEBRUARY.CSV'', contents = []\<rparr>]"
    by (simp add: droppedFiles_def endsWith_def)
  finally show ?thesis .
qed

end
